theory Spec2Isabelle
  imports Complex_Main "HOL-Library.AList" "HOL-Library.Signed_Division"
begin

section \<open>Top spenders: the transaction pipeline of parse/parse.go\<close>

text \<open>
  The development follows \<^verbatim>\<open>parse/parse.go\<close>: the record decoder and validator, the
  transaction stream producer \<^verbatim>\<open>newTxStream\<close>, the aggregation loop of
  \<^verbatim>\<open>TopSpenders\<close> and the ranking writer \<^verbatim>\<open>writeMonthlySpendings\<close>.

  Conventions of the embedding.
  \<^item> \<^verbatim>\<open>float64\<close> is the type variable \<open>'f\<close>. The code only adds, multiplies and compares
    such values and starts totals at the zero value, so the definitions ask for the
    classes \<open>zero\<close>, \<open>plus\<close>, \<open>times\<close> and \<open>ord\<close> and nothing else: a theorem stated at
    these sorts holds for any arithmetic, IEEE-754 rounding included. Where a
    property depends on the arithmetic, it is stated on the model of \<^verbatim>\<open>float64\<close>
    given below, an instance of these classes.
  \<^item> Go's \<^verbatim>\<open>int\<close> is \<open>int\<close>: the only arithmetic on it is \<open>year * 100 + month\<close> and
    the increment of a transaction count, both far from 64-bit overflow.
  \<^item> Library functions whose text is not part of the repository
    (\<^verbatim>\<open>strconv.ParseFloat\<close>, \<^verbatim>\<open>time.Parse\<close>) are fields of a record \<open>Lib\<close> passed to
    the functions that call them.
  \<^item> A Go map is an association list with distinct keys, read with \<open>map_of\<close> and
    written with \<open>AList.update\<close>. Go iterates a map in an unspecified order; every
    theorem about the writer is independent of that order.
  \<^item> The channel of \<^verbatim>\<open>newTxStream\<close> is first-in first-out with one producer and one
    consumer, so it is the list of the items sent, in sending order.
\<close>

subsection \<open>Constants\<close>

definition timeLayout :: string where
  "timeLayout = ''02/01/2006 15:04''"

definition txCardSpend :: string where
  "txCardSpend = ''CARD SPEND''"

definition txBuyGold :: string where
  "txBuyGold = ''BUY GOLD''"

definition txSellGold :: string where
  "txSellGold = ''SELL GOLD''"

definition currencyGBP :: string where
  "currencyGBP = ''GBP''"

definition currencyGGM :: string where
  "currencyGGM = ''GGM''"

subsection \<open>Errors\<close>

text \<open>
  \<open>EOF\<close> is \<^verbatim>\<open>io.EOF\<close>; \<open>ErrFieldCount\<close> and \<open>ErrQuote\<close> are the parse errors of
  \<^verbatim>\<open>encoding/csv\<close>; \<open>IOError\<close> is any other failure of the input stream. The rest are
  the errors \<^verbatim>\<open>decodeRecord\<close> and \<^verbatim>\<open>validate\<close> build, \<open>NumError\<close> being what
  \<^verbatim>\<open>strconv.ParseFloat\<close> returns.
\<close>

datatype error =
    EOF
  | ErrFieldCount
  | ErrQuote
  | IOError string
  | InvalidColumns nat
  | NumError string
  | InvalidTimeFormat string
  | UnknownTransactionType string
  | UnsupportedCurrency

subsection \<open>Time values\<close>

datatype Month =
    January | February | March | April | May | June
  | July | August | September | October | November | December

text \<open>The conversion \<^verbatim>\<open>int(date.Month())\<close>.\<close>

fun Month_int :: "Month \<Rightarrow> int" where
  "Month_int January = 1"
| "Month_int February = 2"
| "Month_int March = 3"
| "Month_int April = 4"
| "Month_int May = 5"
| "Month_int June = 6"
| "Month_int July = 7"
| "Month_int August = 8"
| "Month_int September = 9"
| "Month_int October = 10"
| "Month_int November = 11"
| "Month_int December = 12"

text \<open>A \<^verbatim>\<open>time.Time\<close> at the precision of the layout: day and minute.\<close>

record Time =
  Year :: int
  Month :: Month
  Day :: int
  Hour :: int
  Minute :: int

subsection \<open>Data model\<close>

record 'f Transaction =
  FirstName :: string
  LastName :: string
  Email :: string
  TransactionType :: string
  MerchantCode :: string
  Amount :: 'f
  FromCurrency :: string
  ToCurrency :: string
  Rate :: 'f
  Date :: Time

text \<open>
  The three name fields of \<^verbatim>\<open>UserMonthlySpending\<close> carry a prime, since a field name
  is a constant and \<open>Transaction\<close> has taken the unprimed ones.
\<close>

record 'f UserMonthlySpending =
  FirstName' :: string
  LastName' :: string
  Email' :: string
  TotalGBP :: 'f
  TransactionCount :: int

record Config =
  StopOnError :: bool

text \<open>\<^verbatim>\<open>parsedTx\<close>: the producer fills exactly one of the two fields of the struct.\<close>

datatype 'f parsedTx = Tx "'f Transaction" | Err error

record 'f Lib =
  strconv_ParseFloat :: "string \<Rightarrow> nat \<Rightarrow> error + 'f"
  time_Parse :: "string \<Rightarrow> string \<Rightarrow> error + Time"

text \<open>\<^verbatim>\<open>map[int]map[string]*UserMonthlySpending\<close>, keyed by month key, then by email.\<close>

type_synonym 'f spendings = "(int \<times> (string \<times> 'f UserMonthlySpending) list) list"

subsection \<open>Validation and decoding\<close>

definition validate :: "'f Transaction \<Rightarrow> error option" where
  "validate t =
     (if \<not> (TransactionType t = txBuyGold \<or> TransactionType t = txSellGold
             \<or> TransactionType t = txCardSpend)
      then Some (UnknownTransactionType (TransactionType t))
      else if \<not> (FromCurrency t = currencyGBP \<or> FromCurrency t = currencyGGM)
      then Some UnsupportedCurrency
      else if \<not> (ToCurrency t = currencyGBP \<or> ToCurrency t = currencyGGM)
      then Some UnsupportedCurrency
      else None)"

definition decodeRecord :: "'f Lib \<Rightarrow> string list \<Rightarrow> error + 'f Transaction" where
  "decodeRecord L rec =
     (let l = length rec in
      if l < 10 then Inl (InvalidColumns l)
      else case strconv_ParseFloat L (rec ! 5) 64 of
        Inl err \<Rightarrow> Inl err
      | Inr amount \<Rightarrow>
         (case strconv_ParseFloat L (rec ! 8) 64 of
            Inl err \<Rightarrow> Inl err
          | Inr rate \<Rightarrow>
             (case time_Parse L timeLayout (rec ! 9) of
                Inl err \<Rightarrow> Inl (InvalidTimeFormat (rec ! 9))
              | Inr date \<Rightarrow>
                  Inr \<lparr>FirstName = rec ! 0, LastName = rec ! 1, Email = rec ! 2,
                       TransactionType = rec ! 3, MerchantCode = rec ! 4,
                       Amount = amount, FromCurrency = rec ! 6,
                       ToCurrency = rec ! 7, Rate = rate, Date = date\<rparr>)))"

subsection \<open>The csv reader\<close>

text \<open>
  The input stream, as \<^verbatim>\<open>encoding/csv\<close> sees it: for each successive record either its
  fields, or the error met while reading it (a malformed quote, a failed read of the
  underlying stream). After the last item the stream is exhausted.
\<close>

datatype source_item = Fields "string list" | Fault error

text \<open>
  \<^verbatim>\<open>csv.NewReader\<close> leaves \<^verbatim>\<open>FieldsPerRecord\<close> at its zero value. \<^verbatim>\<open>Read\<close> then follows
  the documented rule of the package: a positive \<^verbatim>\<open>FieldsPerRecord\<close> is the number of
  fields every record must have, and a record of another length is returned with
  \<^verbatim>\<open>ErrFieldCount\<close>; when it is 0, \<^verbatim>\<open>Read\<close> sets it to the number of fields of the first
  record; when it is negative nothing is checked. At the end of the input \<^verbatim>\<open>Read\<close>
  returns \<^verbatim>\<open>io.EOF\<close>.
\<close>

record Reader =
  pending :: "source_item list"
  FieldsPerRecord :: int

definition csv_NewReader :: "source_item list \<Rightarrow> Reader" where
  "csv_NewReader src = \<lparr>pending = src, FieldsPerRecord = 0\<rparr>"

definition csv_Read :: "Reader \<Rightarrow> (error + string list) \<times> Reader" where
  "csv_Read r =
     (case pending r of
        [] \<Rightarrow> (Inl EOF, r)
      | Fault e # rest \<Rightarrow> (Inl e, r\<lparr>pending := rest\<rparr>)
      | Fields fs # rest \<Rightarrow>
          (if FieldsPerRecord r > 0
           then (if int (length fs) \<noteq> FieldsPerRecord r
                 then (Inl ErrFieldCount, r\<lparr>pending := rest\<rparr>)
                 else (Inr fs, r\<lparr>pending := rest\<rparr>))
           else if FieldsPerRecord r = 0
           then (Inr fs, r\<lparr>pending := rest, FieldsPerRecord := int (length fs)\<rparr>)
           else (Inr fs, r\<lparr>pending := rest\<rparr>)))"

subsection \<open>The transaction stream producer\<close>

text \<open>
  The \<^verbatim>\<open>for\<close> loop of the goroutine in \<^verbatim>\<open>newTxStream\<close>. It reads until \<^verbatim>\<open>Read\<close>
  returns an error, which it sends unless it is \<^verbatim>\<open>io.EOF\<close>; a record that fails to
  decode or to validate is sent as an error and the loop goes on.
\<close>

function readLoop :: "'f Lib \<Rightarrow> Reader \<Rightarrow> 'f parsedTx list" where
  "readLoop L csvReader =
     (case csv_Read csvReader of
        (Inl err, csvReader') \<Rightarrow> (if err \<noteq> EOF then [Err err] else [])
      | (Inr rec, csvReader') \<Rightarrow>
          (case decodeRecord L rec of
             Inl err \<Rightarrow> Err err # readLoop L csvReader'
           | Inr tx \<Rightarrow>
               (case validate tx of
                  Some err \<Rightarrow> Err err # readLoop L csvReader'
                | None \<Rightarrow> Tx tx # readLoop L csvReader')))"
  by pat_completeness auto

termination readLoop
  by (relation "measure (\<lambda>(L, r). length (pending r))")
     (auto simp: csv_Read_def split: list.splits source_item.splits if_splits)

declare readLoop.simps [simp del]

definition newTxStream :: "'f Lib \<Rightarrow> source_item list \<Rightarrow> 'f parsedTx list" where
  "newTxStream L transactionsList =
     (let csvReader = csv_NewReader transactionsList in
      case csv_Read csvReader of
        (Inl err, csvReader') \<Rightarrow> [Err err]
      | (Inr header, csvReader') \<Rightarrow> readLoop L csvReader')"

subsection \<open>The monthly aggregator\<close>

definition update ::
  "('f::{plus,times}) UserMonthlySpending \<Rightarrow> 'f Transaction \<Rightarrow> 'f UserMonthlySpending" where
  "update us tx =
     (let us1 = (if FromCurrency tx = currencyGGM
                 then us\<lparr>TotalGBP := TotalGBP us + Amount tx * Rate tx\<rparr> else us);
          us2 = (if FromCurrency tx = currencyGBP
                 then us1\<lparr>TotalGBP := TotalGBP us1 + Amount tx\<rparr> else us1)
      in us2\<lparr>TransactionCount := TransactionCount us2 + 1\<rparr>)"

definition monthKey :: "Time \<Rightarrow> int" where
  "monthKey date = Year date * 100 + Month_int (Month date)"

text \<open>
  The body of the loop of \<^verbatim>\<open>TopSpenders\<close> for an item without error: skip
  anything but a card spend, find or create the month, find or create the user's
  entry (with the zero total and count of a fresh struct), update it. The entry is
  a pointer in the Go map; here the updated entry is stored back.
\<close>

definition accumulate ::
  "('f::{zero,plus,times}) spendings \<Rightarrow> 'f Transaction \<Rightarrow> 'f spendings" where
  "accumulate monthlySpendings tx =
     (if TransactionType tx \<noteq> txCardSpend then monthlySpendings
      else
        let key = monthKey (Date tx);
            month = (case map_of monthlySpendings key of None \<Rightarrow> [] | Some m \<Rightarrow> m);
            userSpendings =
              (case map_of month (Email tx) of
                 None \<Rightarrow> \<lparr>FirstName' = FirstName tx, LastName' = LastName tx,
                          Email' = Email tx, TotalGBP = 0, TransactionCount = 0\<rparr>
               | Some us \<Rightarrow> us)
        in AList.update key
             (AList.update (Email tx) (update userSpendings tx) month) monthlySpendings)"

text \<open>
  The loop over the channel. The third argument is the map built so far, the fourth
  the errors handed to \<^verbatim>\<open>slog.Error\<close> so far. \<open>Inl\<close> is the early \<^verbatim>\<open>return parsed.err\<close>.
\<close>

fun consume ::
  "Config \<Rightarrow> ('f::{zero,plus,times}) parsedTx list \<Rightarrow> 'f spendings \<Rightarrow> error list
     \<Rightarrow> error + ('f spendings \<times> error list)" where
  "consume cfg [] monthlySpendings logged = Inr (monthlySpendings, logged)"
| "consume cfg (Err e # rest) monthlySpendings logged =
     (if StopOnError cfg then Inl e
      else consume cfg rest monthlySpendings (logged @ [e]))"
| "consume cfg (Tx tx # rest) monthlySpendings logged =
     consume cfg rest (accumulate monthlySpendings tx) logged"

subsection \<open>The ranking writer\<close>

text \<open>
  A record handed to \<^verbatim>\<open>csvWriter.Write\<close>. The cells are kept as the values the code
  formats: \<open>date\<close> is the pair of year and month given to \<^verbatim>\<open>time.Date\<close>, \<open>rank\<close> and
  \<open>transactions\<close> the integers given to \<^verbatim>\<open>strconv.Itoa\<close>, \<open>amount\<close> the total given to
  \<^verbatim>\<open>strconv.FormatFloat\<close>.
\<close>

record 'f Ranked =
  date :: "int \<times> int"
  rank :: int
  amount :: 'f
  currency :: string
  transactions :: int
  email :: string
  firstName :: string
  lastName :: string

datatype 'f csv_record = Header "string list" | Row "'f Ranked"

text \<open>
  \<^verbatim>\<open>sort.Slice\<close> with the comparison \<open>less\<close>. The model is the insertion sort that the Go
  library runs on a slice of at most 12 elements: each element in turn moves left
  while it is \<open>less\<close> than its left neighbour. \<open>bubble\<close> works on the sorted prefix
  in reverse, its head being the right end. On a longer slice Go runs
  pattern-defeating quicksort, whose result differs at most in the order of
  elements neither of which is \<open>less\<close> than the other.
\<close>

fun bubble :: "('a \<Rightarrow> 'a \<Rightarrow> bool) \<Rightarrow> 'a \<Rightarrow> 'a list \<Rightarrow> 'a list" where
  "bubble lessFn x [] = [x]"
| "bubble lessFn x (y # ys) =
     (if lessFn x y then y # bubble lessFn x ys else x # y # ys)"

definition sort_Slice :: "('a \<Rightarrow> 'a \<Rightarrow> bool) \<Rightarrow> 'a list \<Rightarrow> 'a list" where
  "sort_Slice lessFn xs = rev (foldl (\<lambda>acc x. bubble lessFn x acc) [] xs)"

text \<open>
  The year and the month that \<^verbatim>\<open>time.Date\<close> receives for a month key,
  \<^verbatim>\<open>key/100\<close> and \<^verbatim>\<open>key%100\<close>. Go's \<^verbatim>\<open>/\<close> and \<^verbatim>\<open>%\<close> truncate towards zero: \<open>sdiv\<close> and
  \<open>smod\<close>.
\<close>

definition writtenDate :: "int \<Rightarrow> int \<times> int" where
  "writtenDate key = (key sdiv 100, key smod 100)"

text \<open>
  The body of the loop over the months: the users of the month sorted by
  descending total, and a row for each of the first \<open>topN\<close>.
\<close>

definition monthRows ::
  "int \<Rightarrow> (string \<times> ('f::ord) UserMonthlySpending) list \<Rightarrow> 'f csv_record list" where
  "monthRows key month =
     (let userSpendings =
            sort_Slice (\<lambda>a b. TotalGBP a > TotalGBP b) (map snd month);
          topN = (if length userSpendings < 5 then length userSpendings else 5)
      in map (\<lambda>i. let userSpending = userSpendings ! i in
                Row \<lparr>date = writtenDate key, rank = int i + 1,
                     amount = TotalGBP userSpending, currency = ''GBP'',
                     transactions = TransactionCount userSpending,
                     email = Email' userSpending,
                     firstName = FirstName' userSpending,
                     lastName = LastName' userSpending\<rparr>)
           [0..<topN])"

text \<open>
  The sink is a buffer that accepts every write, as the \<^verbatim>\<open>bytes.Buffer\<close> of the
  repository's tests: the function is the list of records written, and its error
  result is \<^verbatim>\<open>nil\<close>.
\<close>

definition writeMonthlySpendings :: "('f::ord) spendings \<Rightarrow> 'f csv_record list" where
  "writeMonthlySpendings spendings =
     (let monthsSeen = sort (map fst spendings) in
      Header [''date'', ''rank'', ''amount'', ''currency'', ''transactions'',
              ''email'', ''firstName'', ''lastName'']
      # concat (map (\<lambda>key. monthRows key
                       (case map_of spendings key of None \<Rightarrow> [] | Some month \<Rightarrow> month))
                  monthsSeen))"

subsection \<open>The entry point\<close>

text \<open>
  What a run leaves behind: the error returned (\<open>None\<close> for \<^verbatim>\<open>nil\<close>), the records
  written to \<^verbatim>\<open>results\<close>, and the errors reported through \<^verbatim>\<open>slog.Error\<close>.
\<close>

record 'f Run =
  returned :: "error option"
  results :: "'f csv_record list"
  diagnostics :: "error list"

definition TopSpenders ::
  "('f::{zero,plus,times,ord}) Lib \<Rightarrow> source_item list \<Rightarrow> Config \<Rightarrow> 'f Run" where
  "TopSpenders L transactionsList cfg =
     (let transactions = newTxStream L transactionsList in
      case consume cfg transactions [] [] of
        Inl err \<Rightarrow> \<lparr>returned = Some err, results = [], diagnostics = []\<rparr>
      | Inr (monthlySpendings, logged) \<Rightarrow>
          \<lparr>returned = None, results = writeMonthlySpendings monthlySpendings,
           diagnostics = logged\<rparr>)"

subsection \<open>A model of \<^verbatim>\<open>float64\<close>\<close>

text \<open>
  The values of IEEE 754 binary64: the finite numbers by their value, the two
  infinities and NaN. The two zeros are one value, since they compare equal and
  the code only adds, multiplies and compares; all NaNs are one value for the same
  reason. A finite result is rounded to the nearest number with a significand of 53
  bits and an exponent of the unit in the last place between \<open>-1074\<close> and \<open>971\<close>
  (subnormal numbers included), ties going to the even significand, and a result
  that rounds to \<open>2 ^ 1024\<close> or beyond is an infinity.

  \<open>ulpExp z\<close> is the exponent of the unit in the last place for \<open>z\<close>: the least
  \<open>p\<close> from \<open>-1074\<close> on with \<open>\<bar>z\<bar> < 2 powi (p + 53)\<close>, and \<open>971\<close> when there is none
  below. \<open>is_float64\<close> holds of the values that rounding leaves alone, the numbers
  that a \<^verbatim>\<open>float64\<close> can hold.
\<close>

datatype float64 = NaN | NegInf | Finite real | PosInf

definition nearestEven :: "real \<Rightarrow> int" where
  "nearestEven q =
     (let f = \<lfloor>q\<rfloor>; d = q - of_int f in
      if d < 1 / 2 then f
      else if 1 / 2 < d then f + 1
      else if even f then f else f + 1)"

fun searchExp :: "real \<Rightarrow> nat \<Rightarrow> int \<Rightarrow> int" where
  "searchExp a 0 p = p"
| "searchExp a (Suc n) p = (if a < 2 powi (p + 53) then p else searchExp a n (p + 1))"

definition ulpExp :: "real \<Rightarrow> int" where
  "ulpExp z = searchExp \<bar>z\<bar> 2045 (- 1074)"

definition rawRound :: "real \<Rightarrow> real" where
  "rawRound z = of_int (nearestEven (z / 2 powi ulpExp z)) * 2 powi ulpExp z"

definition roundTo64 :: "real \<Rightarrow> float64" where
  "roundTo64 z =
     (let v = rawRound z in
      if 2 ^ 1024 \<le> v then PosInf
      else if v \<le> - (2 ^ 1024) then NegInf
      else Finite v)"

text \<open>
  Go's \<^verbatim>\<open>+\<close>, \<^verbatim>\<open>*\<close> and \<^verbatim>\<open><\<close> on \<^verbatim>\<open>float64\<close>, and the zero value. Every comparison
  with NaN is false; \<^verbatim>\<open>a > b\<close> is \<open>b < a\<close>.
\<close>

instantiation float64 :: "{zero, plus, times, ord}"
begin

definition zero_float64 :: float64 where
  "zero_float64 = Finite 0"

fun plus_float64 :: "float64 \<Rightarrow> float64 \<Rightarrow> float64" where
  "plus_float64 NaN y = NaN"
| "plus_float64 x NaN = NaN"
| "plus_float64 (Finite a) (Finite b) = roundTo64 (a + b)"
| "plus_float64 PosInf NegInf = NaN"
| "plus_float64 NegInf PosInf = NaN"
| "plus_float64 PosInf y = PosInf"
| "plus_float64 x PosInf = PosInf"
| "plus_float64 NegInf y = NegInf"
| "plus_float64 x NegInf = NegInf"

fun times_float64 :: "float64 \<Rightarrow> float64 \<Rightarrow> float64" where
  "times_float64 NaN y = NaN"
| "times_float64 x NaN = NaN"
| "times_float64 (Finite a) (Finite b) = roundTo64 (a * b)"
| "times_float64 (Finite a) PosInf =
     (if a = 0 then NaN else if 0 < a then PosInf else NegInf)"
| "times_float64 (Finite a) NegInf =
     (if a = 0 then NaN else if 0 < a then NegInf else PosInf)"
| "times_float64 PosInf (Finite b) =
     (if b = 0 then NaN else if 0 < b then PosInf else NegInf)"
| "times_float64 NegInf (Finite b) =
     (if b = 0 then NaN else if 0 < b then NegInf else PosInf)"
| "times_float64 PosInf PosInf = PosInf"
| "times_float64 NegInf NegInf = PosInf"
| "times_float64 PosInf NegInf = NegInf"
| "times_float64 NegInf PosInf = NegInf"

fun less_float64 :: "float64 \<Rightarrow> float64 \<Rightarrow> bool" where
  "less_float64 NaN y = False"
| "less_float64 x NaN = False"
| "less_float64 (Finite a) (Finite b) = (a < b)"
| "less_float64 x NegInf = False"
| "less_float64 NegInf y = True"
| "less_float64 PosInf y = False"
| "less_float64 x PosInf = True"

definition less_eq_float64 :: "float64 \<Rightarrow> float64 \<Rightarrow> bool" where
  "less_eq_float64 x y \<longleftrightarrow> x < y \<or> (x = y \<and> x \<noteq> NaN)"

instance ..

end

definition is_float64 :: "float64 \<Rightarrow> bool" where
  "is_float64 v = (case v of Finite x \<Rightarrow> roundTo64 x = Finite x | _ \<Rightarrow> True)"

subsection \<open>Observations used in the statements\<close>

text \<open>\<^verbatim>\<open>monthlySpendings[key][e]\<close>, and the total it holds (zero when there is none).\<close>

definition entry :: "'f spendings \<Rightarrow> int \<Rightarrow> string \<Rightarrow> 'f UserMonthlySpending option" where
  "entry monthlySpendings key e =
     (case map_of monthlySpendings key of None \<Rightarrow> None | Some month \<Rightarrow> map_of month e)"

definition total :: "('f::zero) spendings \<Rightarrow> int \<Rightarrow> string \<Rightarrow> 'f" where
  "total monthlySpendings key e =
     (case entry monthlySpendings key e of None \<Rightarrow> 0 | Some us \<Rightarrow> TotalGBP us)"

text \<open>The item the loop of \<^verbatim>\<open>newTxStream\<close> sends for a record that \<^verbatim>\<open>Read\<close> returned.\<close>

definition sent :: "'f Lib \<Rightarrow> string list \<Rightarrow> 'f parsedTx" where
  "sent L rec =
     (case decodeRecord L rec of
        Inl err \<Rightarrow> Err err
      | Inr tx \<Rightarrow> (case validate tx of Some err \<Rightarrow> Err err | None \<Rightarrow> Tx tx))"

text \<open>The errors and the transactions of a stream, each in stream order.\<close>

fun errorsOf :: "'f parsedTx list \<Rightarrow> error list" where
  "errorsOf [] = []"
| "errorsOf (Err e # rest) = e # errorsOf rest"
| "errorsOf (Tx tx # rest) = errorsOf rest"

fun transactionsOf :: "'f parsedTx list \<Rightarrow> 'f Transaction list" where
  "transactionsOf [] = []"
| "transactionsOf (Err e # rest) = transactionsOf rest"
| "transactionsOf (Tx tx # rest) = tx # transactionsOf rest"

definition reportHeader :: "'f csv_record" where
  "reportHeader = Header [''date'', ''rank'', ''amount'', ''currency'', ''transactions'',
                          ''email'', ''firstName'', ''lastName'']"

text \<open>The data rows of a report, in the order written.\<close>

fun rankedOf :: "'f csv_record list \<Rightarrow> 'f Ranked list" where
  "rankedOf [] = []"
| "rankedOf (Header h # rest) = rankedOf rest"
| "rankedOf (Row r # rest) = r # rankedOf rest"

text \<open>
  The qualifying transactions of a stream: the valid ones of type CARD SPEND. The
  spenders of a month are the emails of the qualifying transactions whose month is
  written as \<open>d\<close>.
\<close>

definition cardSpends :: "'f parsedTx list \<Rightarrow> 'f Transaction list" where
  "cardSpends stream =
     filter (\<lambda>tx. TransactionType tx = txCardSpend) (transactionsOf stream)"

definition spenders :: "'f parsedTx list \<Rightarrow> int \<times> int \<Rightarrow> string set" where
  "spenders stream d =
     set (map Email
       (filter (\<lambda>tx. writtenDate (monthKey (Date tx)) = d) (cardSpends stream)))"

text \<open>Chronological order of pairs of a year and a month.\<close>

definition precedes :: "int \<times> int \<Rightarrow> int \<times> int \<Rightarrow> bool" where
  "precedes a b \<longleftrightarrow> fst a < fst b \<or> (fst a = fst b \<and> snd a < snd b)"

text \<open>\<^verbatim>\<open>spendings[key]\<close>, the empty map when the key is absent.\<close>

definition monthAt :: "'f spendings \<Rightarrow> int \<Rightarrow> (string \<times> 'f UserMonthlySpending) list" where
  "monthAt spendings key =
     (case map_of spendings key of None \<Rightarrow> [] | Some month \<Rightarrow> month)"

text \<open>The invariant that makes an association list a map: every key occurs once.\<close>

definition keysOnce :: "'f spendings \<Rightarrow> bool" where
  "keysOnce spendings \<longleftrightarrow>
     distinct (map fst spendings)
     \<and> (\<forall>month\<in>snd ` set spendings. distinct (map fst month))"

text \<open>
  The totals that the loop has accumulated for the users of the month written as
  \<open>d\<close>, and what it takes for \<^verbatim>\<open>>\<close> to order a set of totals: no two of them are each
  above the other, and being not below is transitive. On \<^verbatim>\<open>float64\<close> this holds of
  every set without NaN.
\<close>

definition weaklyOrdered :: "('f::ord) set \<Rightarrow> bool" where
  "weaklyOrdered T \<longleftrightarrow>
     (\<forall>a\<in>T. \<forall>b\<in>T. a < b \<longrightarrow> \<not> b < a)
     \<and> (\<forall>a\<in>T. \<forall>b\<in>T. \<forall>c\<in>T. \<not> a < b \<longrightarrow> \<not> b < c \<longrightarrow> \<not> a < c)"

definition monthTotals ::
  "('f::{zero,plus,times}) parsedTx list \<Rightarrow> int \<times> int \<Rightarrow> 'f set" where
  "monthTotals stream d =
     set (map (\<lambda>entry. TotalGBP (snd entry))
       (concat (map snd
         (filter (\<lambda>month. writtenDate (fst month) = d)
           (foldl accumulate [] (transactionsOf stream))))))"

subsection \<open>Sample input\<close>

text \<open>
  The rows of the repository's tests, and a library that agrees with
  \<^verbatim>\<open>strconv.ParseFloat\<close> and \<^verbatim>\<open>time.Parse\<close> on the strings that occur in them. All the
  numbers involved are small integers, which \<^verbatim>\<open>float64\<close> represents and adds exactly.
\<close>

definition testLib :: "real Lib" where
  "testLib =
     \<lparr>strconv_ParseFloat = (\<lambda>s bitSize.
          if s = ''1'' then Inr 1
          else if s = ''100'' then Inr 100
          else if s = ''200'' then Inr 200
          else if s = ''-5'' then Inr (- 5)
          else Inl (NumError s)),
      time_Parse = (\<lambda>layout s.
          if s = ''10/01/2024 12:00''
          then Inr \<lparr>Year = 2024, Month = January, Day = 10, Hour = 12, Minute = 0\<rparr>
          else if s = ''11/01/2024 12:00''
          then Inr \<lparr>Year = 2024, Month = January, Day = 11, Hour = 12, Minute = 0\<rparr>
          else if s = ''12/01/2024 12:00''
          then Inr \<lparr>Year = 2024, Month = January, Day = 12, Hour = 12, Minute = 0\<rparr>
          else Inl (InvalidTimeFormat s))\<rparr>"

definition inHeader :: "string list" where
  "inHeader = [''First name'', ''Last name'', ''Email'', ''Description'',
               ''Merchant code'', ''Amount'', ''From Currency'', ''To Currency'',
               ''Rate'', ''Date'']"

definition rowA :: "string list" where
  "rowA = [''A'', ''A'', ''a@test.com'', ''CARD SPEND'', ''5013'', ''100'', ''GBP'',
           ''GBP'', ''1'', ''10/01/2024 12:00'']"

definition rowB :: "string list" where
  "rowB = [''B'', ''B'', ''b@test.com'', ''CARD SPEND'', ''5013'', ''invalid_amount'',
           ''GBP'', ''GBP'', ''1'', ''11/01/2024 12:00'']"

definition rowC :: "string list" where
  "rowC = [''C'', ''C'', ''c@test.com'', ''CARD SPEND'', ''5013'', ''200'', ''GBP'',
           ''GBP'', ''1'', ''12/01/2024 12:00'']"

text \<open>Row B with a good amount that ties with row A, and row B without its date.\<close>

definition rowB100 :: "string list" where
  "rowB100 = [''B'', ''B'', ''b@test.com'', ''CARD SPEND'', ''5013'', ''100'', ''GBP'',
              ''GBP'', ''1'', ''11/01/2024 12:00'']"

definition rowShort :: "string list" where
  "rowShort = [''B'', ''B'', ''b@test.com'', ''CARD SPEND'', ''5013'', ''100'', ''GBP'',
               ''GBP'', ''1'']"

text \<open>Row A with a negative amount, which \<^verbatim>\<open>strconv.ParseFloat\<close> accepts.\<close>

definition rowNeg :: "string list" where
  "rowNeg = [''A'', ''A'', ''a@test.com'', ''CARD SPEND'', ''5013'', ''-5'', ''GBP'',
             ''GBP'', ''1'', ''10/01/2024 12:00'']"

definition txA :: "real Transaction" where
  "txA = \<lparr>FirstName = ''A'', LastName = ''A'', Email = ''a@test.com'',
          TransactionType = ''CARD SPEND'', MerchantCode = ''5013'', Amount = 100,
          FromCurrency = ''GBP'', ToCurrency = ''GBP'', Rate = 1,
          Date = \<lparr>Year = 2024, Month = January, Day = 10, Hour = 12, Minute = 0\<rparr>\<rparr>"

definition txC :: "real Transaction" where
  "txC = \<lparr>FirstName = ''C'', LastName = ''C'', Email = ''c@test.com'',
          TransactionType = ''CARD SPEND'', MerchantCode = ''5013'', Amount = 200,
          FromCurrency = ''GBP'', ToCurrency = ''GBP'', Rate = 1,
          Date = \<lparr>Year = 2024, Month = January, Day = 12, Hour = 12, Minute = 0\<rparr>\<rparr>"

definition txB100 :: "real Transaction" where
  "txB100 = \<lparr>FirstName = ''B'', LastName = ''B'', Email = ''b@test.com'',
             TransactionType = ''CARD SPEND'', MerchantCode = ''5013'', Amount = 100,
             FromCurrency = ''GBP'', ToCurrency = ''GBP'', Rate = 1,
             Date = \<lparr>Year = 2024, Month = January, Day = 11, Hour = 12, Minute = 0\<rparr>\<rparr>"

definition txNeg :: "real Transaction" where
  "txNeg = \<lparr>FirstName = ''A'', LastName = ''A'', Email = ''a@test.com'',
            TransactionType = ''CARD SPEND'', MerchantCode = ''5013'', Amount = - 5,
            FromCurrency = ''GBP'', ToCurrency = ''GBP'', Rate = 1,
            Date = \<lparr>Year = 2024, Month = January, Day = 10, Hour = 12, Minute = 0\<rparr>\<rparr>"

text \<open>The gold conversion and the gold purchase of the happy-path test.\<close>

definition txGold :: "real Transaction" where
  "txGold = \<lparr>FirstName = ''C'', LastName = ''C'', Email = ''c@test.com'',
             TransactionType = ''CARD SPEND'', MerchantCode = [], Amount = 50,
             FromCurrency = ''GGM'', ToCurrency = ''GBP'', Rate = 50,
             Date = \<lparr>Year = 2024, Month = January, Day = 12, Hour = 12, Minute = 0\<rparr>\<rparr>"

definition txBuy :: "real Transaction" where
  "txBuy = \<lparr>FirstName = ''A'', LastName = ''A'', Email = ''a@test.com'',
            TransactionType = ''BUY GOLD'', MerchantCode = [], Amount = 999,
            FromCurrency = ''GBP'', ToCurrency = ''GBP'', Rate = 1,
            Date = \<lparr>Year = 2024, Month = January, Day = 1, Hour = 12, Minute = 0\<rparr>\<rparr>"

definition userA :: "real UserMonthlySpending" where
  "userA = \<lparr>FirstName' = ''A'', LastName' = ''A'', Email' = ''a@test.com'',
            TotalGBP = 100, TransactionCount = 1\<rparr>"

text \<open>
  Spends in February 2024 and December 2023, with a library that parses their
  dates; and for the \<^verbatim>\<open>float64\<close> model an amount that is not a number, which
  \<^verbatim>\<open>strconv.ParseFloat\<close> accepts as \<^verbatim>\<open>NaN\<close>, an infinite amount with rate zero, and user A
  and the gold conversion again.
\<close>

definition calendarLib :: "real Lib" where
  "calendarLib =
     testLib\<lparr>time_Parse := (\<lambda>layout s.
        if s = ''05/02/2024 12:00''
        then Inr \<lparr>Year = 2024, Month = February, Day = 5, Hour = 12, Minute = 0\<rparr>
        else if s = ''20/12/2023 12:00''
        then Inr \<lparr>Year = 2023, Month = December, Day = 20, Hour = 12, Minute = 0\<rparr>
        else time_Parse testLib layout s)\<rparr>"

definition rowFeb :: "string list" where
  "rowFeb = [''D'', ''D'', ''d@test.com'', ''CARD SPEND'', ''5013'', ''200'', ''GBP'',
             ''GBP'', ''1'', ''05/02/2024 12:00'']"

definition rowDec :: "string list" where
  "rowDec = [''E'', ''E'', ''e@test.com'', ''CARD SPEND'', ''5013'', ''100'', ''GBP'',
             ''GBP'', ''1'', ''20/12/2023 12:00'']"

definition txFeb :: "real Transaction" where
  "txFeb = \<lparr>FirstName = ''D'', LastName = ''D'', Email = ''d@test.com'',
            TransactionType = ''CARD SPEND'', MerchantCode = ''5013'', Amount = 200,
            FromCurrency = ''GBP'', ToCurrency = ''GBP'', Rate = 1,
            Date = \<lparr>Year = 2024, Month = February, Day = 5, Hour = 12, Minute = 0\<rparr>\<rparr>"

definition txDec :: "real Transaction" where
  "txDec = \<lparr>FirstName = ''E'', LastName = ''E'', Email = ''e@test.com'',
            TransactionType = ''CARD SPEND'', MerchantCode = ''5013'', Amount = 100,
            FromCurrency = ''GBP'', ToCurrency = ''GBP'', Rate = 1,
            Date = \<lparr>Year = 2023, Month = December, Day = 20, Hour = 12, Minute = 0\<rparr>\<rparr>"

definition nanLib :: "float64 Lib" where
  "nanLib =
     \<lparr>strconv_ParseFloat = (\<lambda>s bitSize.
          if s = ''1'' then Inr (Finite 1)
          else if s = ''100'' then Inr (Finite 100)
          else if s = ''200'' then Inr (Finite 200)
          else if s = ''NaN'' then Inr NaN
          else Inl (NumError s)),
      time_Parse = time_Parse testLib\<rparr>"

definition rowNaN :: "string list" where
  "rowNaN = [''B'', ''B'', ''b@test.com'', ''CARD SPEND'', ''5013'', ''NaN'', ''GBP'',
             ''GBP'', ''1'', ''11/01/2024 12:00'']"

definition userA64 :: "float64 UserMonthlySpending" where
  "userA64 = \<lparr>FirstName' = ''A'', LastName' = ''A'', Email' = ''a@test.com'',
              TotalGBP = Finite 100, TransactionCount = 1\<rparr>"

definition txGold64 :: "float64 Transaction" where
  "txGold64 = \<lparr>FirstName = ''C'', LastName = ''C'', Email = ''c@test.com'',
               TransactionType = ''CARD SPEND'', MerchantCode = [], Amount = Finite 50,
               FromCurrency = ''GGM'', ToCurrency = ''GBP'', Rate = Finite 50,
               Date = \<lparr>Year = 2024, Month = January, Day = 12, Hour = 12, Minute = 0\<rparr>\<rparr>"

definition txInf64 :: "float64 Transaction" where
  "txInf64 = \<lparr>FirstName = ''C'', LastName = ''C'', Email = ''c@test.com'',
              TransactionType = ''CARD SPEND'', MerchantCode = [], Amount = PosInf,
              FromCurrency = ''GGM'', ToCurrency = ''GBP'', Rate = Finite 0,
              Date = \<lparr>Year = 2024, Month = January, Day = 12, Hour = 12, Minute = 0\<rparr>\<rparr>"

section \<open>Properties\<close>

lemmas sample_defs =
  testLib_def inHeader_def rowA_def rowB_def rowC_def rowB100_def rowShort_def rowNeg_def
  txA_def txC_def txB100_def txNeg_def txGold_def txBuy_def userA_def
  txCardSpend_def txBuyGold_def txSellGold_def currencyGBP_def currencyGGM_def
  timeLayout_def

lemmas calendar_defs = calendarLib_def rowFeb_def rowDec_def txFeb_def txDec_def
  nanLib_def rowNaN_def

subsection \<open>Unfolding the producer and the consumer\<close>

lemma readLoop_Nil: "readLoop L \<lparr>pending = [], FieldsPerRecord = n\<rparr> = []"
  by (subst readLoop.simps) (simp add: csv_Read_def)

lemma readLoop_Fault:
  "readLoop L \<lparr>pending = Fault e # rest, FieldsPerRecord = n\<rparr> =
     (if e \<noteq> EOF then [Err e] else [])"
  by (subst readLoop.simps) (simp add: csv_Read_def)

lemma readLoop_Fields:
  "readLoop L \<lparr>pending = Fields fs # rest, FieldsPerRecord = n\<rparr> =
     (if 0 < n \<and> int (length fs) \<noteq> n then [Err ErrFieldCount]
      else sent L fs #
           readLoop L \<lparr>pending = rest,
                       FieldsPerRecord = (if n = 0 then int (length fs) else n)\<rparr>)"
  by (subst readLoop.simps)
     (auto simp: csv_Read_def sent_def split: sum.splits option.splits)

lemma newTxStream_Nil: "newTxStream L [] = [Err EOF]"
  by (simp add: newTxStream_def csv_NewReader_def csv_Read_def)

lemma newTxStream_Fault: "newTxStream L (Fault e # rest) = [Err e]"
  by (simp add: newTxStream_def csv_NewReader_def csv_Read_def)

lemma newTxStream_Fields:
  "newTxStream L (Fields h # rest) =
     readLoop L \<lparr>pending = rest, FieldsPerRecord = int (length h)\<rparr>"
  by (simp add: newTxStream_def csv_NewReader_def csv_Read_def)

text \<open>Records with the expected number of fields are sent one by one, in order.\<close>

lemma readLoop_uniform:
  assumes "\<forall>r\<in>set rows. int (length r) = n"
  shows "readLoop L \<lparr>pending = map Fields rows @ items, FieldsPerRecord = n\<rparr> =
           map (sent L) rows @ readLoop L \<lparr>pending = items, FieldsPerRecord = n\<rparr>"
  using assms
  by (induction rows) (auto simp: readLoop_Fields)

lemma newTxStream_uniform:
  assumes "\<forall>r\<in>set rows. length r = length h"
  shows "newTxStream L (Fields h # map Fields rows @ items) =
           map (sent L) rows
           @ readLoop L \<lparr>pending = items, FieldsPerRecord = int (length h)\<rparr>"
  using readLoop_uniform [of rows "int (length h)" L items] assms
  by (simp add: newTxStream_Fields)

lemma errorsOf_append: "errorsOf (xs @ ys) = errorsOf xs @ errorsOf ys"
  by (induction xs rule: errorsOf.induct) auto

lemma transactionsOf_append:
  "transactionsOf (xs @ ys) = transactionsOf xs @ transactionsOf ys"
  by (induction xs rule: transactionsOf.induct) auto

lemma consume_default:
  "\<not> StopOnError cfg \<Longrightarrow>
     consume cfg stream ms lg =
       Inr (foldl accumulate ms (transactionsOf stream), lg @ errorsOf stream)"
  by (induction cfg stream ms lg rule: consume.induct) auto

lemma consume_Tx_prefix:
  "consume cfg (map Tx txs @ rest) ms lg = consume cfg rest (foldl accumulate ms txs) lg"
  by (induction txs arbitrary: ms) auto

lemma consume_no_error:
  "errorsOf stream = [] \<Longrightarrow>
     consume cfg stream ms lg = Inr (foldl accumulate ms (transactionsOf stream), lg)"
  by (induction cfg stream ms lg rule: consume.induct) auto

lemma writeMonthlySpendings_Nil: "writeMonthlySpendings [] = [reportHeader]"
  by (simp add: writeMonthlySpendings_def reportHeader_def)

lemma TopSpenders_default:
  fixes L :: "('f::{zero,plus,times,ord}) Lib"
  assumes "\<not> StopOnError cfg"
  shows "TopSpenders L src cfg =
     \<lparr>returned = None,
      results = writeMonthlySpendings
                  (foldl accumulate [] (transactionsOf (newTxStream L src))),
      diagnostics = errorsOf (newTxStream L src)\<rparr>"
  using assms by (simp add: TopSpenders_def Let_def consume_default)

text \<open>The stream of the malformed input of the repository's tests.\<close>

lemma sent_rowA: "sent testLib rowA = Tx txA"
  by (simp add: sent_def decodeRecord_def validate_def sample_defs)

lemma sent_rowB: "sent testLib rowB = Err (NumError ''invalid_amount'')"
  by (simp add: sent_def decodeRecord_def validate_def sample_defs)

lemma sent_rowC: "sent testLib rowC = Tx txC"
  by (simp add: sent_def decodeRecord_def validate_def sample_defs)

lemma length_rows:
  "length inHeader = 10" "length rowA = 10" "length rowB = 10" "length rowC = 10"
  "length rowB100 = 10" "length rowShort = 9" "length rowNeg = 10"
  by (simp_all add: sample_defs)

lemma stream_ABC:
  "newTxStream testLib [Fields inHeader, Fields rowA, Fields rowB, Fields rowC] =
     [Tx txA, Err (NumError ''invalid_amount''), Tx txC]"
  by (simp add: newTxStream_Fields readLoop_Fields readLoop_Nil length_rows
      sent_rowA sent_rowB sent_rowC)

subsection \<open>The entry of a user\<close>

lemma entry_accumulate:
  fixes tx :: "('f::{zero,plus,times}) Transaction"
  assumes "TransactionType tx = txCardSpend"
  shows "entry (accumulate ms tx) (monthKey (Date tx)) (Email tx) =
     Some (update (case entry ms (monthKey (Date tx)) (Email tx) of
                     None \<Rightarrow> \<lparr>FirstName' = FirstName tx, LastName' = LastName tx,
                          Email' = Email tx, TotalGBP = 0, TransactionCount = 0\<rparr>
                   | Some us \<Rightarrow> us) tx)"
  using assms
  by (auto simp: accumulate_def entry_def Let_def update_conv' split: option.splits)

lemma update_TotalGBP:
  "TotalGBP (update us tx) =
     (if FromCurrency tx = currencyGGM then TotalGBP us + Amount tx * Rate tx
      else if FromCurrency tx = currencyGBP then TotalGBP us + Amount tx
      else TotalGBP us)"
  by (simp add: update_def Let_def currencyGGM_def currencyGBP_def)

lemma update_TransactionCount:
  "TransactionCount (update us tx) = TransactionCount us + 1"
  by (simp add: update_def Let_def)

lemma validate_currency:
  "validate tx = None \<Longrightarrow>
     FromCurrency tx = currencyGBP \<and> FromCurrency tx \<noteq> currencyGGM
     \<or> FromCurrency tx = currencyGGM \<and> FromCurrency tx \<noteq> currencyGBP"
  by (auto simp: validate_def currencyGBP_def currencyGGM_def split: if_splits)

subsection \<open>Month keys\<close>


lemma Month_int_range: "1 \<le> Month_int m \<and> Month_int m \<le> 12"
  by (cases m) simp_all

lemma sdiv_100: "(k::int) sdiv 100 = (if 0 \<le> k then k div 100 else - ((- k) div 100))"
  by (simp add: signed_divide_int_def sgn_if)

lemma smod_100: "(k::int) smod 100 = (if 0 \<le> k then k mod 100 else - ((- k) mod 100))"
  by (simp add: signed_modulo_int_def sgn_if)

lemma writtenDate_monthKey:
  assumes "0 \<le> Year t"
  shows "writtenDate (monthKey t) = (Year t, Month_int (Month t))"
proof -
  have r: "1 \<le> Month_int (Month t)" "Month_int (Month t) \<le> 12"
    using Month_int_range [of "Month t"] by simp_all
  have k: "0 \<le> Year t * 100 + Month_int (Month t)"
    using assms r by simp
  have d: "(Year t * 100 + Month_int (Month t)) div 100 = Year t"
    using r by simp
  have m: "(Year t * 100 + Month_int (Month t)) mod 100 = Month_int (Month t)"
    using r by simp
  show ?thesis
    using k d m by (simp add: writtenDate_def monthKey_def sdiv_100 smod_100)
qed

lemma writtenDate_inj:
  assumes "writtenDate a = writtenDate b"
  shows "a = b"
proof -
  have "a sdiv 100 = b sdiv 100" and "a smod 100 = b smod 100"
    using assms by (simp_all add: writtenDate_def)
  then show ?thesis
    by (metis sdiv_mult_smod_eq)
qed

lemma sdiv_100_mono:
  assumes "(a::int) \<le> b"
  shows "a sdiv 100 \<le> b sdiv 100"
proof (cases "0 \<le> a")
  case True
  then show ?thesis
    using assms by (simp add: sdiv_100 zdiv_mono1)
next
  case False
  note neg = this
  show ?thesis
  proof (cases "0 \<le> b")
    case True
    have "- ((- a) div 100) \<le> 0"
      using neg by (simp add: pos_imp_zdiv_nonneg_iff)
    moreover have "0 \<le> b div 100"
      using True by (simp add: pos_imp_zdiv_nonneg_iff)
    ultimately show ?thesis
      using neg True by (simp add: sdiv_100)
  next
    case False
    have "(- b) div 100 \<le> (- a) div 100"
      using assms by (simp add: zdiv_mono1)
    then show ?thesis
      using neg False by (simp add: sdiv_100)
  qed
qed

lemma writtenDate_mono:
  assumes "a < b"
  shows "precedes (writtenDate a) (writtenDate b)"
proof -
  have q: "a sdiv 100 \<le> b sdiv 100"
    using assms by (simp add: sdiv_100_mono)
  have ea: "a sdiv 100 * 100 + a smod 100 = a" and eb: "b sdiv 100 * 100 + b smod 100 = b"
    by (rule sdiv_mult_smod_eq)+
  show ?thesis
  proof (cases "a sdiv 100 = b sdiv 100")
    case True
    then have "a smod 100 < b smod 100"
      using ea eb assms by linarith
    then show ?thesis
      using True by (simp add: precedes_def writtenDate_def)
  next
    case False
    then show ?thesis
      using q by (simp add: precedes_def writtenDate_def)
  qed
qed

lemma monthKey_less:
  "monthKey d1 < monthKey d2 \<longleftrightarrow>
     precedes (Year d1, Month_int (Month d1)) (Year d2, Month_int (Month d2))"
  using Month_int_range [of "Month d1"] Month_int_range [of "Month d2"]
  unfolding monthKey_def precedes_def fst_conv snd_conv
  by linarith





subsection \<open>Sorting\<close>

lemma set_bubble: "set (bubble lessFn x ys) = insert x (set ys)"
  by (induction ys) auto

lemma length_bubble: "length (bubble lessFn x ys) = Suc (length ys)"
  by (induction ys) auto

lemma weaklyOrdered_asym:
  "weaklyOrdered T \<Longrightarrow> a \<in> T \<Longrightarrow> b \<in> T \<Longrightarrow> a < b \<Longrightarrow> \<not> b < a"
  unfolding weaklyOrdered_def by blast

lemma weaklyOrdered_ntr:
  "weaklyOrdered T \<Longrightarrow> a \<in> T \<Longrightarrow> b \<in> T \<Longrightarrow> c \<in> T \<Longrightarrow>
     \<not> a < b \<Longrightarrow> \<not> b < c \<Longrightarrow> \<not> a < c"
  unfolding weaklyOrdered_def by blast

lemma length_foldl_bubble:
  "length (foldl (\<lambda>acc x. bubble lessFn x acc) acc xs) = length acc + length xs"
  by (induction xs arbitrary: acc) (simp_all add: length_bubble)

lemma length_sort_Slice_any: "length (sort_Slice lessFn xs) = length xs"
  by (simp add: sort_Slice_def length_foldl_bubble)

lemma bubble_weak:
  assumes "weaklyOrdered T" and "f x \<in> T" and "f ` set ys \<subseteq> T"
    and "sorted_wrt (\<lambda>a b. \<not> f b < f a) ys"
  shows "sorted_wrt (\<lambda>a b. \<not> f b < f a) (bubble (\<lambda>a b. f a > f b) x ys)"
  using assms(3,4)
proof (induction ys)
  case Nil
  then show ?case by simp
next
  case (Cons y ys)
  note asym = weaklyOrdered_asym [OF assms(1)]
  note ntr = weaklyOrdered_ntr [OF assms(1)]
  have y: "f y \<in> T" and ys: "\<And>w. w \<in> set ys \<Longrightarrow> f w \<in> T"
    using Cons.prems(1) by auto
  show ?case
  proof (cases "f y < f x")
    case True
    have "\<not> f x < f y"
      using asym [OF y assms(2) True] .
    moreover have "sorted_wrt (\<lambda>a b. \<not> f b < f a) (bubble (\<lambda>a b. f a > f b) x ys)"
      using Cons by simp
    moreover have "\<And>w. w \<in> set ys \<Longrightarrow> \<not> f w < f y"
      using Cons.prems(2) by simp
    ultimately show ?thesis
      using True by (simp add: set_bubble)
  next
    case False
    have "\<not> f w < f x" if "w \<in> set ys" for w
    proof -
      have "\<not> f w < f y"
        using Cons.prems(2) that by simp
      then show ?thesis
        using False by (rule ntr [OF ys [OF that] y assms(2)])
    qed
    then show ?thesis
      using False Cons.prems(2) by auto
  qed
qed

lemma foldl_bubble_weak:
  assumes "weaklyOrdered T" and "f ` set xs \<subseteq> T" and "f ` set acc \<subseteq> T"
    and "sorted_wrt (\<lambda>a b. \<not> f b < f a) acc"
  shows "sorted_wrt (\<lambda>a b. \<not> f b < f a)
           (foldl (\<lambda>acc x. bubble (\<lambda>a b. f a > f b) x acc) acc xs)"
  using assms(2,3,4)
proof (induction xs arbitrary: acc)
  case Nil
  then show ?case by simp
next
  case (Cons x xs)
  have "sorted_wrt (\<lambda>a b. \<not> f b < f a) (bubble (\<lambda>a b. f a > f b) x acc)"
    using Cons.prems by (intro bubble_weak [OF assms(1)]) auto
  moreover have "f ` set (bubble (\<lambda>a b. f a > f b) x acc) \<subseteq> T"
    using Cons.prems by (auto simp: set_bubble)
  ultimately show ?case
    using Cons.prems(1) by (simp add: Cons.IH)
qed

lemma sort_Slice_weak:
  assumes "weaklyOrdered T" and "f ` set xs \<subseteq> T"
  shows "sorted_wrt (\<lambda>a b. \<not> f a < f b) (sort_Slice (\<lambda>a b. f a > f b) xs)"
  using foldl_bubble_weak [OF assms, of "[]"]
  by (simp add: sort_Slice_def sorted_wrt_rev)

lemma weaklyOrdered_linorder: "weaklyOrdered (T :: ('f::linorder) set)"
  unfolding weaklyOrdered_def by (intro conjI ballI impI) simp_all

subsection \<open>The rows of a month\<close>

lemma rankedOf_append: "rankedOf (xs @ ys) = rankedOf xs @ rankedOf ys"
  by (induction xs rule: rankedOf.induct) auto

lemma rankedOf_concat: "rankedOf (concat xss) = concat (map rankedOf xss)"
  by (induction xss) (auto simp: rankedOf_append)

lemma rankedOf_Row: "rankedOf (map (\<lambda>i. Row (g i)) is) = map g is"
  by (induction "is") auto

lemma upt_ranks: "map (\<lambda>i. int i + 1) [0..<n] = map int [1..<Suc n]"
  by (induction n) auto

lemma monthRows_date:
  "r \<in> set (rankedOf (monthRows key month)) \<Longrightarrow> date r = writtenDate key"
  by (auto simp: monthRows_def Let_def rankedOf_Row)

lemma monthRows_rank_any:
  "map rank (rankedOf (monthRows key month)) =
     map int [1..<Suc (min 5 (length month))]"
  by (simp add: monthRows_def Let_def rankedOf_Row length_sort_Slice_any upt_ranks
      min_def o_def)

lemma monthRows_weak:
  assumes "weaklyOrdered T" and "(\<lambda>entry. TotalGBP (snd entry)) ` set month \<subseteq> T"
  shows "sorted_wrt (\<lambda>a b. \<not> amount a < amount b) (rankedOf (monthRows key month))"
proof -
  let ?us = "sort_Slice (\<lambda>a b. TotalGBP a > TotalGBP b) (map snd month)"
  have "TotalGBP ` set (map snd month) \<subseteq> T"
    using assms(2) by auto
  then have "sorted_wrt (\<lambda>a b. \<not> TotalGBP a < TotalGBP b) ?us"
    by (rule sort_Slice_weak [OF assms(1)])
  then have "\<And>i j. i < j \<Longrightarrow> j < length ?us \<Longrightarrow> \<not> TotalGBP (?us ! i) < TotalGBP (?us ! j)"
    by (simp add: sorted_wrt_iff_nth_less)
  then show ?thesis
    by (auto simp: monthRows_def Let_def rankedOf_Row sorted_wrt_map
        sorted_wrt_iff_nth_less)
qed

lemma monthRows_nonempty:
  "month \<noteq> [] \<Longrightarrow> rankedOf (monthRows key month) \<noteq> []"
proof -
  assume "month \<noteq> []"
  then have "0 < length month"
    by simp
  then have "map int [1..<Suc (min 5 (length month))] \<noteq> []"
    by (simp add: Suc_le_eq)
  then have "map rank (rankedOf (monthRows key month)) \<noteq> []"
    unfolding monthRows_rank_any .
  then show ?thesis
    by auto
qed

subsection \<open>The report, month by month\<close>

lemma rankedOf_writeMonthlySpendings:
  "rankedOf (writeMonthlySpendings ms) =
     concat (map (\<lambda>key. rankedOf (monthRows key (monthAt ms key))) (sort (map fst ms)))"
  by (simp add: writeMonthlySpendings_def rankedOf_concat monthAt_def o_def)

lemma filter_groups:
  assumes "distinct keys"
    and "\<And>k r. r \<in> set (g k) \<Longrightarrow> tag r = f k"
    and "\<And>a b. f a = f b \<Longrightarrow> a = b"
  shows "filter (\<lambda>r. tag r = f k0) (concat (map g keys)) =
           (if k0 \<in> set keys then g k0 else [])"
  using assms(1)
proof (induction keys)
  case Nil
  then show ?case by simp
next
  case (Cons k keys)
  have hit: "filter (\<lambda>r. tag r = f k0) (g k0) = g k0"
    using assms(2) by (simp add: filter_id_conv)
  have miss: "k \<noteq> k0 \<Longrightarrow> filter (\<lambda>r. tag r = f k0) (g k) = []"
    using assms(2) assms(3) by (auto simp: filter_empty_conv)
  show ?case
    using Cons hit miss by auto
qed

lemma monthRows_Nil: "monthRows key [] = []"
  by (simp add: monthRows_def sort_Slice_def)

lemma monthAt_absent: "key \<notin> set (map fst ms) \<Longrightarrow> monthAt ms key = []"
  by (simp add: monthAt_def map_of_eq_None_iff [THEN iffD2])

lemma month_of_report:
  assumes "distinct (map fst ms)"
  shows "filter (\<lambda>r. date r = writtenDate key) (rankedOf (writeMonthlySpendings ms)) =
           rankedOf (monthRows key (monthAt ms key))"
proof -
  have d: "distinct (sort (map fst ms))"
    using assms by simp
  have "filter (\<lambda>r. date r = writtenDate key)
          (concat (map (\<lambda>key. rankedOf (monthRows key (monthAt ms key)))
             (sort (map fst ms)))) =
        (if key \<in> set (sort (map fst ms))
         then rankedOf (monthRows key (monthAt ms key)) else [])"
    by (rule filter_groups [OF d]) (auto dest: monthRows_date writtenDate_inj)
  then show ?thesis
    using monthAt_absent [of key ms]
    by (auto simp: rankedOf_writeMonthlySpendings monthRows_Nil)
qed

lemma date_of_report:
  assumes "r \<in> set (rankedOf (writeMonthlySpendings ms))"
  shows "\<exists>key. date r = writtenDate key \<and> monthAt ms key \<noteq> []"
  using assms
  by (auto simp: rankedOf_writeMonthlySpendings monthRows_Nil dest: monthRows_date)

subsection \<open>The map built by the loop\<close>

lemma set_AList_update:
  "p \<in> set (AList.update k v al) \<Longrightarrow> p = (k, v) \<or> p \<in> set al"
  by (induction al) (auto split: if_splits)

lemma keysOnce_Nil: "keysOnce []"
  by (simp add: keysOnce_def)

lemma keysOnce_monthAt: "keysOnce ms \<Longrightarrow> distinct (map fst (monthAt ms key))"
  by (auto simp: keysOnce_def monthAt_def split: option.splits dest!: map_of_SomeD)

lemma keysOnce_accumulate:
  fixes tx :: "('f::{zero,plus,times}) Transaction"
  assumes "keysOnce ms"
  shows "keysOnce (accumulate ms tx)"
proof (cases "TransactionType tx = txCardSpend")
  case False
  then show ?thesis
    using assms by (simp add: accumulate_def)
next
  case True
  let ?key = "monthKey (Date tx)"
  obtain u where acc: "accumulate ms tx =
      AList.update ?key (AList.update (Email tx) u (monthAt ms ?key)) ms"
    using True by (simp add: accumulate_def Let_def monthAt_def)
  have m: "distinct (map fst (AList.update (Email tx) u (monthAt ms ?key)))"
    using keysOnce_monthAt [OF assms] by (rule distinct_update)
  have k: "distinct (map fst (accumulate ms tx))"
    using assms unfolding acc keysOnce_def by (simp add: distinct_update)
  have v: "\<And>month. month \<in> snd ` set (accumulate ms tx) \<Longrightarrow> distinct (map fst month)"
    using assms m unfolding acc keysOnce_def
    by (auto dest!: set_AList_update)
  show ?thesis
    using k v by (simp add: keysOnce_def)
qed

lemma keysOnce_foldl:
  fixes txs :: "('f::{zero,plus,times}) Transaction list"
  shows "keysOnce ms \<Longrightarrow> keysOnce (foldl accumulate ms txs)"
  by (induction txs arbitrary: ms) (simp_all add: keysOnce_accumulate)

lemma emails_accumulate:
  fixes tx :: "('f::{zero,plus,times}) Transaction"
  shows "fst ` set (monthAt (accumulate ms tx) key) =
           fst ` set (monthAt ms key)
           \<union> (if TransactionType tx = txCardSpend \<and> monthKey (Date tx) = key
              then {Email tx} else {})"
  by (simp add: accumulate_def Let_def monthAt_def update_conv' dom_update
      split: option.splits)

lemma emails_foldl:
  fixes txs :: "('f::{zero,plus,times}) Transaction list"
  shows "fst ` set (monthAt (foldl accumulate ms txs) key) =
           fst ` set (monthAt ms key)
           \<union> Email ` {tx \<in> set txs. TransactionType tx = txCardSpend
                                    \<and> monthKey (Date tx) = key}"
proof (induction txs arbitrary: ms)
  case Nil
  then show ?case by simp
next
  case (Cons tx txs)
  show ?case
    unfolding foldl_Cons Cons.IH emails_accumulate
    by auto
qed

lemma length_month:
  fixes txs :: "('f::{zero,plus,times}) Transaction list"
  shows "length (monthAt (foldl accumulate [] txs) key) =
           card (Email ` {tx \<in> set txs. TransactionType tx = txCardSpend
                                      \<and> monthKey (Date tx) = key})"
proof -
  let ?m = "monthAt (foldl accumulate [] txs) key"
  have "distinct (map fst ?m)"
    by (rule keysOnce_monthAt) (rule keysOnce_foldl [OF keysOnce_Nil])
  then have "card (set (map fst ?m)) = length (map fst ?m)"
    by (rule distinct_card)
  then show ?thesis
    using emails_foldl [of "[]" txs key] by (simp add: monthAt_def)
qed




lemma monthAt_totals:
  "(\<lambda>entry. TotalGBP (snd entry)) ` set (monthAt (foldl accumulate [] (transactionsOf stream)) key)
     \<subseteq> monthTotals stream (writtenDate key)"
proof
  fix t
  let ?ms = "foldl accumulate [] (transactionsOf stream)"
  assume "t \<in> (\<lambda>entry. TotalGBP (snd entry)) ` set (monthAt ?ms key)"
  then obtain entry where e: "entry \<in> set (monthAt ?ms key)" "t = TotalGBP (snd entry)"
    by blast
  then have "\<exists>month. map_of ?ms key = Some month \<and> entry \<in> set month"
    by (cases "map_of ?ms key") (simp_all add: monthAt_def)
  then obtain month where m: "map_of ?ms key = Some month" "entry \<in> set month"
    by blast
  have "(key, month) \<in> set ?ms"
    using m(1) by (rule map_of_SomeD)
  then have km: "(key, month) \<in>
      set (filter (\<lambda>month. writtenDate (fst month) = writtenDate key) ?ms)"
    by simp
  have "\<exists>p\<in>set (filter (\<lambda>month. writtenDate (fst month) = writtenDate key) ?ms).
          entry \<in> set (snd p)"
    by (rule bexI [OF _ km]) (simp add: m(2))
  then have "entry \<in> set (concat (map snd
      (filter (\<lambda>month. writtenDate (fst month) = writtenDate key) ?ms)))"
    by simp
  then show "t \<in> monthTotals stream (writtenDate key)"
    unfolding monthTotals_def e(2) by simp
qed

lemma month_written:
  fixes stream :: "('f::{zero,plus,times,ord}) parsedTx list"
  assumes "tx \<in> set (cardSpends stream)"
  shows "writtenDate (monthKey (Date tx)) \<in>
           set (map date (rankedOf (writeMonthlySpendings
             (foldl accumulate [] (transactionsOf stream)))))"
proof -
  let ?ms = "foldl accumulate [] (transactionsOf stream)"
  let ?key = "monthKey (Date tx)"
  have tx: "tx \<in> set (transactionsOf stream)" "TransactionType tx = txCardSpend"
    using assms by (simp_all add: cardSpends_def)
  have "Email tx \<in> fst ` set (monthAt ?ms ?key)"
    using tx unfolding emails_foldl by auto
  then have "monthAt ?ms ?key \<noteq> []"
    by auto
  then have ne: "rankedOf (monthRows ?key (monthAt ?ms ?key)) \<noteq> []"
    by (rule monthRows_nonempty)
  have once: "distinct (map fst ?ms)"
    using keysOnce_foldl [OF keysOnce_Nil, of "transactionsOf stream"]
    by (simp add: keysOnce_def)
  have "filter (\<lambda>r. date r = writtenDate ?key) (rankedOf (writeMonthlySpendings ?ms)) \<noteq> []"
    unfolding month_of_report [OF once] by (rule ne)
  then obtain r where "r \<in> set (rankedOf (writeMonthlySpendings ?ms))"
      "date r = writtenDate ?key"
    by (auto simp: filter_empty_conv)
  then show ?thesis
    by force
qed

subsection \<open>What the report is built from\<close>

lemma consume_Inr:
  "consume cfg stream ms lg = Inr (ms', lg') \<Longrightarrow>
     ms' = foldl accumulate ms (transactionsOf stream)"
  by (induction cfg stream ms lg rule: consume.induct) (auto split: if_splits)

lemma TopSpenders_results:
  fixes L :: "('f::{zero,plus,times,ord}) Lib"
  shows "results (TopSpenders L src cfg) =
     (if returned (TopSpenders L src cfg) = None
      then writeMonthlySpendings
             (foldl accumulate [] (transactionsOf (newTxStream L src)))
      else [])"
  by (auto simp: TopSpenders_def Let_def split: sum.splits dest: consume_Inr)

lemma in_transactionsOf: "tx \<in> set (transactionsOf stream) \<longleftrightarrow> Tx tx \<in> set stream"
  by (induction stream rule: transactionsOf.induct) auto

lemma sent_Tx:
  "sent L fs = Tx tx \<Longrightarrow> \<exists>s. time_Parse L timeLayout s = Inr (Date tx)"
  by (auto simp: sent_def decodeRecord_def Let_def
      split: sum.splits option.splits if_splits)

lemma readLoop_Tx:
  "Tx tx \<in> set (readLoop L \<lparr>pending = items, FieldsPerRecord = n\<rparr>) \<Longrightarrow>
     \<exists>fs. sent L fs = Tx tx"
proof (induction items arbitrary: n)
  case Nil
  then show ?case by (simp add: readLoop_Nil)
next
  case (Cons item items)
  show ?case
  proof (cases item)
    case (Fields fs)
    then show ?thesis
      using Cons by (auto simp: readLoop_Fields split: if_splits)
  next
    case (Fault e)
    then show ?thesis
      using Cons.prems by (simp add: readLoop_Fault split: if_splits)
  qed
qed

lemma newTxStream_Tx:
  assumes "tx \<in> set (transactionsOf (newTxStream L src))"
  shows "\<exists>s. time_Parse L timeLayout s = Inr (Date tx)"
proof -
  have t: "Tx tx \<in> set (newTxStream L src)"
    using assms by (simp add: in_transactionsOf)
  show ?thesis
  proof (cases src)
    case Nil
    then show ?thesis
      using t by (simp add: newTxStream_Nil)
  next
    case (Cons item items)
    then show ?thesis
      using t by (cases item) (auto simp: newTxStream_Fields newTxStream_Fault
          dest: readLoop_Tx sent_Tx)
  qed
qed

lemma spenders_key:
  "spenders stream (writtenDate key) =
     Email ` {tx \<in> set (transactionsOf stream).
                TransactionType tx = txCardSpend \<and> monthKey (Date tx) = key}"
  by (auto simp: spenders_def cardSpends_def dest: writtenDate_inj)

lemma spenders_no_key:
  "(\<And>key. d \<noteq> writtenDate key) \<Longrightarrow> spenders stream d = {}"
  by (auto simp: spenders_def)

lemma sorted_dates:
  assumes "sorted keys" and "\<And>k r. r \<in> set (g k) \<Longrightarrow> date r = writtenDate k"
  shows "sorted_wrt (\<lambda>a b. a = b \<or> precedes a b) (map date (concat (map g keys)))"
  using assms(1)
proof (induction keys)
  case Nil
  then show ?case by simp
next
  case (Cons k keys)
  have same: "sorted_wrt (\<lambda>a b. a = b \<or> precedes a b) (map date (g k))"
  proof -
    have "\<And>i. i < length (g k) \<Longrightarrow> date (g k ! i) = writtenDate k"
      using assms(2) by simp
    then show ?thesis
      by (simp add: sorted_wrt_map sorted_wrt_iff_nth_less)
  qed
  have later: "\<And>k' r r'. k' \<in> set keys \<Longrightarrow> r \<in> set (g k) \<Longrightarrow> r' \<in> set (g k') \<Longrightarrow>
      date r = date r' \<or> precedes (date r) (date r')"
  proof -
    fix k' r r'
    assume a: "k' \<in> set keys" "r \<in> set (g k)" "r' \<in> set (g k')"
    have "k \<le> k'"
      using Cons.prems a(1) by simp
    then have "k = k' \<or> k < k'"
      by auto
    then show "date r = date r' \<or> precedes (date r) (date r')"
      using assms(2) [OF a(2)] assms(2) [OF a(3)] writtenDate_mono [of k k'] by auto
  qed
  show ?case
    using Cons same later by (auto simp: sorted_wrt_append)
qed


subsection \<open>Rounding to \<^verbatim>\<open>float64\<close>\<close>

lemma searchExp_bounds: "p \<le> searchExp a n p \<and> searchExp a n p \<le> p + int n"
  by (induction a n p rule: searchExp.induct) auto

lemma searchExp_found:
  "searchExp a n p < p + int n \<Longrightarrow> a < 2 powi (searchExp a n p + 53)"
  by (induction a n p rule: searchExp.induct) (auto split: if_splits)

lemma searchExp_least:
  "p < searchExp a n p \<Longrightarrow> 2 powi (searchExp a n p + 52) \<le> a"
proof (induction a n p rule: searchExp.induct)
  case (1 a p)
  then show ?case by simp
next
  case (2 a n p)
  show ?case
  proof (cases "a < 2 powi (p + 53)")
    case True
    then show ?thesis using "2.prems" by simp
  next
    case False
    show ?thesis
    proof (cases "p + 1 < searchExp a n (p + 1)")
      case True
      then show ?thesis using False "2.IH" by simp
    next
      case False
      then have "searchExp a n (p + 1) = p + 1"
        using searchExp_bounds [of "p + 1" a n] by simp
      then show ?thesis
        using \<open>\<not> a < 2 powi (p + 53)\<close> by (simp add: add.commute)
    qed
  qed
qed

lemma ulpExp_range: "- 1074 \<le> ulpExp z \<and> ulpExp z \<le> 971"
  using searchExp_bounds [of "- 1074" "\<bar>z\<bar>" 2045] by (simp add: ulpExp_def)

lemma ulpExp_upper: "ulpExp z < 971 \<Longrightarrow> \<bar>z\<bar> < 2 powi (ulpExp z + 53)"
  using searchExp_found [of "\<bar>z\<bar>" 2045 "- 1074"] by (simp add: ulpExp_def)

lemma ulpExp_lower: "- 1074 < ulpExp z \<Longrightarrow> 2 powi (ulpExp z + 52) \<le> \<bar>z\<bar>"
  using searchExp_least [of "- 1074" "\<bar>z\<bar>" 2045] by (simp add: ulpExp_def)

lemma ulpExp_mono:
  assumes "\<bar>x\<bar> \<le> \<bar>z\<bar>"
  shows "ulpExp x \<le> ulpExp z"
proof (rule ccontr)
  assume "\<not> ulpExp x \<le> ulpExp z"
  then have lt: "ulpExp z < ulpExp x" by simp
  have "ulpExp z < 971"
    using lt ulpExp_range [of x] by simp
  then have u: "\<bar>z\<bar> < 2 powi (ulpExp z + 53)"
    by (rule ulpExp_upper)
  have "- 1074 < ulpExp x"
    using lt ulpExp_range [of z] by simp
  then have l: "2 powi (ulpExp x + 52) \<le> \<bar>x\<bar>"
    by (rule ulpExp_lower)
  have "(2::real) powi (ulpExp z + 53) \<le> 2 powi (ulpExp x + 52)"
    using lt by (intro power_int_increasing) simp_all
  then show False
    using u l assms by linarith
qed

lemma nearestEven_ge: "of_int k \<le> q \<Longrightarrow> k \<le> nearestEven q"
proof -
  assume "of_int k \<le> q"
  then have "k \<le> \<lfloor>q\<rfloor>" by (simp add: le_floor_iff)
  then show ?thesis
    by (simp add: nearestEven_def Let_def)
qed

lemma nearestEven_of_int: "nearestEven (of_int k) = k"
  by (simp add: nearestEven_def)

lemma rawRound_not_below:
  assumes fx: "rawRound x = x" and le: "x \<le> z"
  shows "x \<le> rawRound z"
proof (cases "ulpExp z \<le> ulpExp x")
  case True
  define k where "k = nearestEven (x / 2 powi ulpExp x) * 2 ^ nat (ulpExp x - ulpExp z)"
  have split: "(2::real) powi ulpExp x = 2 ^ nat (ulpExp x - ulpExp z) * 2 powi ulpExp z"
  proof -
    have "(2::real) powi ulpExp x = 2 powi ((ulpExp x - ulpExp z) + ulpExp z)"
      by simp
    also have "\<dots> = 2 powi (ulpExp x - ulpExp z) * 2 powi ulpExp z"
      by (rule power_int_add) simp
    also have "(2::real) powi (ulpExp x - ulpExp z) = 2 ^ nat (ulpExp x - ulpExp z)"
      using True by (simp add: power_int_nonneg_exp)
    finally show ?thesis .
  qed
  have "x = of_int (nearestEven (x / 2 powi ulpExp x)) * 2 powi ulpExp x"
    using fx by (simp add: rawRound_def)
  then have xk: "x = of_int k * 2 powi ulpExp z"
    unfolding k_def using split by simp
  have pos: "(0::real) < 2 powi ulpExp z"
    by simp
  have "of_int k = x / 2 powi ulpExp z"
    using xk pos by simp
  also have "\<dots> \<le> z / 2 powi ulpExp z"
    using le pos by (simp add: divide_right_mono)
  finally have "k \<le> nearestEven (z / 2 powi ulpExp z)"
    by (rule nearestEven_ge)
  then have "of_int k * (2::real) powi ulpExp z
               \<le> of_int (nearestEven (z / 2 powi ulpExp z)) * 2 powi ulpExp z"
    using pos by (simp add: mult_right_mono)
  then show ?thesis
    using xk by (simp add: rawRound_def)
next
  case False
  then have lt: "ulpExp x < ulpExp z" by simp
  have "- 1074 < ulpExp z"
    using lt ulpExp_range [of x] by simp
  then have lz: "2 powi (ulpExp z + 52) \<le> \<bar>z\<bar>"
    by (rule ulpExp_lower)
  have "ulpExp x < 971"
    using lt ulpExp_range [of z] by simp
  then have ux: "\<bar>x\<bar> < 2 powi (ulpExp x + 53)"
    by (rule ulpExp_upper)
  have step: "(2::real) powi (ulpExp x + 53) \<le> 2 powi (ulpExp z + 52)"
    using lt by (intro power_int_increasing) simp_all
  have small: "\<bar>x\<bar> < 2 powi (ulpExp z + 52)"
    using ux step by linarith
  have zpos: "2 powi (ulpExp z + 52) \<le> z"
    using lz small le by linarith
  have pos: "(0::real) < 2 powi ulpExp z"
    by simp
  have e: "(2::real) powi (ulpExp z + 52) = 2 ^ 52 * 2 powi ulpExp z"
  proof -
    have "(2::real) powi (ulpExp z + 52) = 2 powi ulpExp z * 2 powi 52"
      by (rule power_int_add) simp
    then show ?thesis by simp
  qed
  have "of_int (2 ^ 52) \<le> z / 2 powi ulpExp z"
    using zpos pos unfolding e by (simp add: pos_le_divide_eq)
  then have "2 ^ 52 \<le> nearestEven (z / 2 powi ulpExp z)"
    by (rule nearestEven_ge)
  then have "(2::real) ^ 52 \<le> of_int (nearestEven (z / 2 powi ulpExp z))"
    by (metis of_int_le_iff of_int_numeral of_int_power)
  then have "2 ^ 52 * (2::real) powi ulpExp z
               \<le> of_int (nearestEven (z / 2 powi ulpExp z)) * 2 powi ulpExp z"
    using pos by (simp add: mult_right_mono)
  then have "2 powi (ulpExp z + 52) \<le> rawRound z"
    unfolding e by (simp add: rawRound_def)
  then show ?thesis
    using small by linarith
qed

lemma is_float64_Finite:
  "is_float64 (Finite x) \<longleftrightarrow> rawRound x = x \<and> - (2 ^ 1024) < x \<and> x < 2 ^ 1024"
  by (auto simp: is_float64_def roundTo64_def Let_def split: if_splits)

lemma roundTo64_not_below:
  assumes "is_float64 (Finite x)" and "x \<le> z"
  shows "\<not> roundTo64 z < Finite x"
proof -
  have fx: "rawRound x = x" and lo: "- (2 ^ 1024) < x"
    using assms(1) by (simp_all add: is_float64_Finite)
  have "x \<le> rawRound z"
    using fx assms(2) by (rule rawRound_not_below)
  then show ?thesis
    using lo by (simp add: roundTo64_def Let_def)
qed

lemma ulpExp_small:
  assumes "\<bar>x\<bar> < 2 ^ 53"
  shows "ulpExp x \<le> 0"
proof (rule ccontr)
  assume "\<not> ulpExp x \<le> 0"
  then have p: "0 < ulpExp x" by simp
  then have "2 powi (ulpExp x + 52) \<le> \<bar>x\<bar>"
    by (intro ulpExp_lower) simp
  moreover have "(2::real) powi 53 \<le> 2 powi (ulpExp x + 52)"
    using p by (intro power_int_increasing) simp_all
  ultimately show False
    using assms by simp
qed

lemma rawRound_int:
  assumes "x \<in> \<int>" and "\<bar>x\<bar> < 2 ^ 53"
  shows "rawRound x = x"
proof -
  obtain n where n: "x = of_int n"
    using assms(1) by (auto elim: Ints_cases)
  have p: "ulpExp x \<le> 0"
    using assms(2) by (rule ulpExp_small)
  have inv: "(2::real) powi ulpExp x * 2 ^ nat (- ulpExp x) = 1"
  proof -
    have "(2::real) ^ nat (- ulpExp x) = 2 powi (- ulpExp x)"
      using p by (simp add: power_int_nonneg_exp)
    then show ?thesis
      by (simp add: power_int_minus)
  qed
  have pos: "(0::real) < 2 powi ulpExp x"
    by simp
  have "x / 2 powi ulpExp x = of_int (n * 2 ^ nat (- ulpExp x))"
    using inv pos n by (simp add: divide_eq_eq mult.assoc mult.commute)
  then have "nearestEven (x / 2 powi ulpExp x) = n * 2 ^ nat (- ulpExp x)"
    by (simp only: nearestEven_of_int)
  then have "rawRound x = of_int n * (2 ^ nat (- ulpExp x) * 2 powi ulpExp x)"
    by (simp add: rawRound_def mult.assoc)
  then show ?thesis
    using inv n by (simp add: mult.commute)
qed

lemma roundTo64_int:
  assumes "x \<in> \<int>" and "\<bar>x\<bar> < 2 ^ 53"
  shows "roundTo64 x = Finite x"
proof -
  have "(2::real) ^ 53 \<le> 2 ^ 1024"
    by (rule power_increasing) simp_all
  then have "\<bar>x\<bar> < 2 ^ 1024"
    using assms(2) by linarith
  then show ?thesis
    using rawRound_int [OF assms] by (auto simp: roundTo64_def Let_def)
qed

lemma is_float64_int: "x \<in> \<int> \<Longrightarrow> \<bar>x\<bar> < 2 ^ 53 \<Longrightarrow> is_float64 (Finite x)"
  by (simp add: is_float64_def roundTo64_int)

lemma add_not_below:
  fixes t c :: float64
  assumes "is_float64 t" and "\<not> c < 0"
  shows "\<not> t + c < t"
  using assms
  by (cases t; cases c) (simp_all add: zero_float64_def roundTo64_not_below)

lemma mult_not_negative:
  fixes a r :: float64
  assumes "0 \<le> a" and "0 \<le> r"
  shows "\<not> a * r < 0"
proof -
  have z: "is_float64 (Finite 0)"
    by (simp add: is_float64_int)
  show ?thesis
    using assms roundTo64_not_below [OF z]
    by (cases a; cases r) (auto simp: zero_float64_def less_eq_float64_def)
qed

lemma not_less_le:
  fixes a b :: float64
  shows "a \<noteq> NaN \<Longrightarrow> b \<noteq> NaN \<Longrightarrow> \<not> b < a \<Longrightarrow> a \<le> b"
  by (cases a; cases b) (auto simp: less_eq_float64_def)

lemma plus_NaN: "(NaN::float64) + c = NaN"
  by simp

lemma nearestEven_le: "q \<le> of_int k \<Longrightarrow> nearestEven q \<le> k"
proof -
  assume q: "q \<le> of_int k"
  have f: "\<lfloor>q\<rfloor> \<le> k"
    using q by (simp add: floor_le_iff)
  show ?thesis
  proof (cases "\<lfloor>q\<rfloor> = k")
    case True
    then have "q = of_int \<lfloor>q\<rfloor>"
      using q of_int_floor_le [of q] by simp
    then have "q - of_int \<lfloor>q\<rfloor> = 0"
      by simp
    then show ?thesis
      using True by (simp add: nearestEven_def Let_def)
  next
    case False
    then have "\<lfloor>q\<rfloor> + 1 \<le> k"
      using f by simp
    then show ?thesis
      using f by (simp add: nearestEven_def Let_def)
  qed
qed

lemma powi_plus: "(2::real) powi (p + int n) = 2 ^ n * 2 powi p"
proof -
  have "(2::real) powi (p + int n) = 2 powi p * 2 powi int n"
    by (rule power_int_add) simp
  then show ?thesis by simp
qed

lemma powi_exp_le:
  assumes "(2::real) powi a \<le> 2 powi b"
  shows "a \<le> b"
proof (rule ccontr)
  assume "\<not> a \<le> b"
  then have "(2::real) powi b < 2 powi a"
    by (intro power_int_strict_increasing) simp_all
  then show False
    using assms by simp
qed

lemma rawRound_idem:
  assumes fin: "\<bar>rawRound z\<bar> < 2 ^ 1024"
  shows "rawRound (rawRound z) = rawRound z"
proof -
  define p where "p = ulpExp z"
  define m where "m = nearestEven (z / 2 powi p)"
  define v where "v = rawRound z"
  define pv where "pv = ulpExp v"
  have v: "v = of_int m * 2 powi p"
    by (simp add: v_def m_def p_def rawRound_def)
  have pos: "(0::real) < 2 powi p" "(0::real) < 2 powi pv"
    by simp_all
  have absv: "\<bar>v\<bar> = of_int \<bar>m\<bar> * 2 powi p"
    unfolding v by (simp add: abs_mult)
  have range: "- 1074 \<le> p" "p \<le> 971" "- 1074 \<le> pv" "pv \<le> 971"
    using ulpExp_range [of z] ulpExp_range [of v] by (simp_all add: p_def pv_def)
  have m_le: "\<bar>m\<bar> \<le> 2 ^ 53"
  proof (cases "p < 971")
    case True
    then have "\<bar>z\<bar> < 2 powi (p + 53)"
      unfolding p_def by (rule ulpExp_upper)
    then have "\<bar>z\<bar> < 2 ^ 53 * 2 powi p"
      using powi_plus [of p 53] by simp
    then have "\<bar>z\<bar> / 2 powi p < 2 ^ 53"
      using pos by (simp add: pos_divide_less_eq)
    then have b: "\<bar>z / 2 powi p\<bar> < 2 ^ 53"
      using pos by (simp add: abs_divide)
    have "z / 2 powi p \<le> 2 ^ 53" and "- (2 ^ 53) \<le> z / 2 powi p"
      using b by linarith+
    then have b1: "z / 2 powi p \<le> of_int (2 ^ 53)"
      and b2: "of_int (- (2 ^ 53)) \<le> z / 2 powi p"
      by simp_all
    have up: "m \<le> 2 ^ 53"
      unfolding m_def using b1 by (rule nearestEven_le)
    have "- (2 ^ 53) \<le> m"
      unfolding m_def using b2 by (rule nearestEven_ge)
    then show ?thesis
      using up by simp
  next
    case False
    then have p: "p = 971"
      using range by simp
    have "(2::real) ^ 1024 = 2 ^ 53 * 2 powi p"
      unfolding p by simp
    then have "of_int \<bar>m\<bar> * 2 powi p < (2::real) ^ 53 * 2 powi p"
      using fin absv by (simp add: v_def)
    then have "(of_int \<bar>m\<bar> :: real) < 2 ^ 53"
      using pos by simp
    then have "\<bar>m\<bar> < 2 ^ 53"
      by (metis of_int_less_iff of_int_numeral of_int_power)
    then show ?thesis by simp
  qed
  have v_le: "\<bar>v\<bar> \<le> 2 powi (p + 53)"
  proof -
    have "(of_int \<bar>m\<bar> :: real) \<le> 2 ^ 53"
      using m_le by (metis of_int_le_iff of_int_numeral of_int_power)
    then have "of_int \<bar>m\<bar> * 2 powi p \<le> (2::real) ^ 53 * 2 powi p"
      using pos by (simp add: mult_right_mono)
    then show ?thesis
      using absv powi_plus [of p 53] by simp
  qed
  have v_ge: "2 powi (p + 52) \<le> \<bar>v\<bar>" if "- 1074 < p"
  proof -
    have "2 powi (p + 52) \<le> \<bar>z\<bar>"
      using that unfolding p_def by (rule ulpExp_lower)
    then have z: "2 ^ 52 * 2 powi p \<le> \<bar>z\<bar>"
      using powi_plus [of p 52] by simp
    have "2 ^ 52 \<le> \<bar>m\<bar>"
    proof (cases "0 \<le> z")
      case True
      then have "of_int (2 ^ 52) \<le> z / 2 powi p"
        using z pos by (simp add: pos_le_divide_eq)
      then have "2 ^ 52 \<le> m"
        unfolding m_def by (rule nearestEven_ge)
      then show ?thesis by simp
    next
      case False
      then have "z / 2 powi p \<le> of_int (- (2 ^ 52))"
        using z pos by (simp add: pos_divide_le_eq)
      then have "m \<le> - (2 ^ 52)"
        unfolding m_def by (rule nearestEven_le)
      then show ?thesis by simp
    qed
    then have "(2::real) ^ 52 \<le> of_int \<bar>m\<bar>"
      by (metis of_int_le_iff of_int_numeral of_int_power)
    then have "(2::real) ^ 52 * 2 powi p \<le> of_int \<bar>m\<bar> * 2 powi p"
      using pos by (simp add: mult_right_mono)
    then show ?thesis
      using absv powi_plus [of p 52] by simp
  qed
  have p_le: "p \<le> pv"
  proof (rule ccontr)
    assume "\<not> p \<le> pv"
    then have lt: "pv < p" by simp
    then have "pv < 971" "- 1074 < p"
      using range by simp_all
    then have "\<bar>v\<bar> < 2 powi (pv + 53)" "2 powi (p + 52) \<le> \<bar>v\<bar>"
      using ulpExp_upper [of v] v_ge by (simp_all add: pv_def)
    moreover have "(2::real) powi (pv + 53) \<le> 2 powi (p + 52)"
      using lt by (intro power_int_increasing) simp_all
    ultimately show False by linarith
  qed
  have "\<exists>k. v = of_int k * 2 powi pv"
  proof (cases "pv = p")
    case True
    then show ?thesis using v by auto
  next
    case False
    then have gt: "p < pv"
      using p_le by simp
    then have "- 1074 < pv"
      using range by simp
    then have lo: "2 powi (pv + 52) \<le> \<bar>v\<bar>"
      unfolding pv_def by (rule ulpExp_lower)
    then have "(2::real) powi (pv + 52) \<le> 2 powi (p + 53)"
      using v_le by linarith
    then have "pv + 52 \<le> p + 53"
      by (rule powi_exp_le)
    then have pv: "pv = p + 1"
      using gt by simp
    have "\<bar>v\<bar> = 2 powi (p + 53)"
      using lo v_le unfolding pv by (simp add: add.commute add.left_commute)
    then have "of_int \<bar>m\<bar> * 2 powi p = (2::real) ^ 53 * 2 powi p"
      using absv powi_plus [of p 53] by simp
    then have "(of_int \<bar>m\<bar> :: real) = 2 ^ 53"
      using pos by simp
    then have "\<bar>m\<bar> = 2 ^ 53"
      by (metis of_int_eq_iff of_int_numeral of_int_power)
    then have "m = 2 ^ 53 \<or> m = - (2 ^ 53)"
      by linarith
    then have "m = 2 * (m div 2)"
      by auto
    then have "(of_int m :: real) = 2 * of_int (m div 2)"
      by (metis of_int_mult of_int_numeral)
    moreover have "(2::real) powi pv = 2 * 2 powi p"
      unfolding pv using powi_plus [of p 1] by simp
    ultimately have "v = of_int (m div 2) * 2 powi pv"
      using v by simp
    then show ?thesis by blast
  qed
  then obtain k where k: "v = of_int k * 2 powi pv" ..
  then have "v / 2 powi pv = of_int k"
    using pos by simp
  then have ne: "nearestEven (v / 2 powi pv) = k"
    by (simp only: nearestEven_of_int)
  have "rawRound v = of_int (nearestEven (v / 2 powi pv)) * 2 powi pv"
    unfolding rawRound_def pv_def by (rule refl)
  also have "\<dots> = of_int k * 2 powi pv"
    unfolding ne by (rule refl)
  also have "\<dots> = v"
    by (rule k [symmetric])
  finally show ?thesis
    unfolding v_def .
qed

lemma is_float64_roundTo64: "is_float64 (roundTo64 z)"
proof -
  have "rawRound (rawRound z) = rawRound z"
    if "\<not> 2 ^ 1024 \<le> rawRound z" "\<not> rawRound z \<le> - (2 ^ 1024)"
    using that by (intro rawRound_idem) simp
  then show ?thesis
    by (auto simp: is_float64_def roundTo64_def Let_def)
qed

lemma is_float64_plus:
  fixes a b :: float64
  shows "is_float64 a \<Longrightarrow> is_float64 (a + b)"
  by (cases a; cases b) (simp_all add: is_float64_roundTo64, simp_all add: is_float64_def)

lemma is_float64_update:
  fixes us :: "float64 UserMonthlySpending"
  shows "is_float64 (TotalGBP us) \<Longrightarrow> is_float64 (TotalGBP (update us tx))"
  by (simp add: update_TotalGBP is_float64_plus)

lemma weaklyOrdered_float64: "NaN \<notin> T \<Longrightarrow> weaklyOrdered (T :: float64 set)"
  unfolding weaklyOrdered_def
proof (intro conjI ballI impI)
  fix a b :: float64
  assume "a < b"
  then show "\<not> b < a"
    by (cases a; cases b) simp_all
next
  fix a b c :: float64
  assume "NaN \<notin> T" "a \<in> T" "b \<in> T" "c \<in> T" "\<not> a < b" "\<not> b < c"
  then show "\<not> a < c"
    by (cases a; cases b; cases c) auto
qed

subsection \<open>The sample reports\<close>


lemma stream_AB100:
  "newTxStream testLib [Fields inHeader, Fields rowA, Fields rowB100] =
     [Tx txA, Tx txB100]"
  by (simp add: newTxStream_Fields readLoop_Fields readLoop_Nil length_rows sent_rowA)
     (simp add: sent_def decodeRecord_def validate_def sample_defs)

lemma report_ABC:
  "rankedOf (results (TopSpenders testLib
       [Fields inHeader, Fields rowA, Fields rowB, Fields rowC] \<lparr>StopOnError = False\<rparr>)) =
     [\<lparr>date = (2024, 1), rank = 1, amount = 200, currency = ''GBP'', transactions = 1,
       email = ''c@test.com'', firstName = ''C'', lastName = ''C''\<rparr>,
      \<lparr>date = (2024, 1), rank = 2, amount = 100, currency = ''GBP'', transactions = 1,
       email = ''a@test.com'', firstName = ''A'', lastName = ''A''\<rparr>]"
  by (simp add: TopSpenders_default stream_ABC)
     (simp add: accumulate_def update_def monthKey_def Let_def writeMonthlySpendings_def
        monthRows_def sort_Slice_def sample_defs writtenDate_def
        signed_divide_int_def signed_modulo_int_def)

lemma report_AB100:
  "rankedOf (results (TopSpenders testLib
       [Fields inHeader, Fields rowA, Fields rowB100] \<lparr>StopOnError = False\<rparr>)) =
     [\<lparr>date = (2024, 1), rank = 1, amount = 100, currency = ''GBP'', transactions = 1,
       email = ''a@test.com'', firstName = ''A'', lastName = ''A''\<rparr>,
      \<lparr>date = (2024, 1), rank = 2, amount = 100, currency = ''GBP'', transactions = 1,
       email = ''b@test.com'', firstName = ''B'', lastName = ''B''\<rparr>]"
  by (simp add: TopSpenders_default stream_AB100)
     (simp add: accumulate_def update_def monthKey_def Let_def writeMonthlySpendings_def
        monthRows_def sort_Slice_def sample_defs writtenDate_def
        signed_divide_int_def signed_modulo_int_def)

lemma spenders_ABC:
  "spenders [Tx txA, Err (NumError ''invalid_amount''), Tx txC] (2024, 1) =
     {''a@test.com'', ''c@test.com''}"
  by (simp add: spenders_def cardSpends_def writtenDate_def monthKey_def sample_defs
      signed_divide_int_def signed_modulo_int_def)


lemma stream_calendar:
  "newTxStream calendarLib [Fields inHeader, Fields rowFeb, Fields rowA, Fields rowDec] =
     [Tx txFeb, Tx txA, Tx txDec]"
  by (simp add: newTxStream_Fields readLoop_Fields readLoop_Nil length_rows)
     (simp add: sent_def decodeRecord_def validate_def sample_defs calendar_defs)

lemma report_calendar:
  "map date (rankedOf (results (TopSpenders calendarLib
       [Fields inHeader, Fields rowFeb, Fields rowA, Fields rowDec]
       \<lparr>StopOnError = False\<rparr>))) =
     [(2023, 12), (2024, 1), (2024, 2)]"
  by (simp add: TopSpenders_default stream_calendar)
     (simp add: accumulate_def update_def monthKey_def Let_def writeMonthlySpendings_def
        monthRows_def sort_Slice_def sample_defs calendar_defs writtenDate_def
        signed_divide_int_def signed_modulo_int_def)

lemma stream_nan:
  "newTxStream nanLib [Fields inHeader, Fields rowA, Fields rowNaN, Fields rowC] =
     [Tx \<lparr>FirstName = ''A'', LastName = ''A'', Email = ''a@test.com'',
          TransactionType = ''CARD SPEND'', MerchantCode = ''5013'', Amount = Finite 100,
          FromCurrency = ''GBP'', ToCurrency = ''GBP'', Rate = Finite 1,
          Date = \<lparr>Year = 2024, Month = January, Day = 10, Hour = 12, Minute = 0\<rparr>\<rparr>,
      Tx \<lparr>FirstName = ''B'', LastName = ''B'', Email = ''b@test.com'',
          TransactionType = ''CARD SPEND'', MerchantCode = ''5013'', Amount = NaN,
          FromCurrency = ''GBP'', ToCurrency = ''GBP'', Rate = Finite 1,
          Date = \<lparr>Year = 2024, Month = January, Day = 11, Hour = 12, Minute = 0\<rparr>\<rparr>,
      Tx \<lparr>FirstName = ''C'', LastName = ''C'', Email = ''c@test.com'',
          TransactionType = ''CARD SPEND'', MerchantCode = ''5013'', Amount = Finite 200,
          FromCurrency = ''GBP'', ToCurrency = ''GBP'', Rate = Finite 1,
          Date = \<lparr>Year = 2024, Month = January, Day = 12, Hour = 12, Minute = 0\<rparr>\<rparr>]"
  by (simp add: newTxStream_Fields readLoop_Fields readLoop_Nil length_rows rowNaN_def)
     (simp add: sent_def decodeRecord_def validate_def sample_defs calendar_defs)

lemma report_nan:
  "rankedOf (results (TopSpenders nanLib
       [Fields inHeader, Fields rowA, Fields rowNaN, Fields rowC]
       \<lparr>StopOnError = False\<rparr>)) =
     [\<lparr>date = (2024, 1), rank = 1, amount = Finite 100, currency = ''GBP'',
       transactions = 1, email = ''a@test.com'', firstName = ''A'', lastName = ''A''\<rparr>,
      \<lparr>date = (2024, 1), rank = 2, amount = NaN, currency = ''GBP'',
       transactions = 1, email = ''b@test.com'', firstName = ''B'', lastName = ''B''\<rparr>,
      \<lparr>date = (2024, 1), rank = 3, amount = Finite 200, currency = ''GBP'',
       transactions = 1, email = ''c@test.com'', firstName = ''C'', lastName = ''C''\<rparr>]"
  by (simp add: TopSpenders_default stream_nan)
     (simp add: accumulate_def update_def monthKey_def Let_def writeMonthlySpendings_def
        monthRows_def sort_Slice_def sample_defs writtenDate_def zero_float64_def
        roundTo64_int signed_divide_int_def signed_modulo_int_def)

lemma stream_AC64:
  "newTxStream nanLib [Fields inHeader, Fields rowA, Fields rowC] =
     [Tx \<lparr>FirstName = ''A'', LastName = ''A'', Email = ''a@test.com'',
          TransactionType = ''CARD SPEND'', MerchantCode = ''5013'', Amount = Finite 100,
          FromCurrency = ''GBP'', ToCurrency = ''GBP'', Rate = Finite 1,
          Date = \<lparr>Year = 2024, Month = January, Day = 10, Hour = 12, Minute = 0\<rparr>\<rparr>,
      Tx \<lparr>FirstName = ''C'', LastName = ''C'', Email = ''c@test.com'',
          TransactionType = ''CARD SPEND'', MerchantCode = ''5013'', Amount = Finite 200,
          FromCurrency = ''GBP'', ToCurrency = ''GBP'', Rate = Finite 1,
          Date = \<lparr>Year = 2024, Month = January, Day = 12, Hour = 12, Minute = 0\<rparr>\<rparr>]"
  by (simp add: newTxStream_Fields readLoop_Fields readLoop_Nil length_rows)
     (simp add: sent_def decodeRecord_def validate_def sample_defs calendar_defs)

lemma totals_AC64:
  "monthTotals (newTxStream nanLib [Fields inHeader, Fields rowA, Fields rowC]) (2024, 1) =
     {Finite 100, Finite 200}"
  by (simp add: stream_AC64 monthTotals_def)
     (simp add: accumulate_def update_def monthKey_def Let_def sample_defs writtenDate_def
        zero_float64_def roundTo64_int signed_divide_int_def signed_modulo_int_def)

lemma report_AC64:
  "map amount (filter (\<lambda>r. date r = (2024, 1)) (rankedOf (results (TopSpenders nanLib
       [Fields inHeader, Fields rowA, Fields rowC] \<lparr>StopOnError = False\<rparr>)))) =
     [Finite 200, Finite 100]"
  by (simp add: TopSpenders_default stream_AC64)
     (simp add: accumulate_def update_def monthKey_def Let_def writeMonthlySpendings_def
        monthRows_def sort_Slice_def sample_defs writtenDate_def zero_float64_def
        roundTo64_int signed_divide_int_def signed_modulo_int_def)

lemma ordered_AC64:
  "weaklyOrdered (monthTotals
      (newTxStream nanLib [Fields inHeader, Fields rowA, Fields rowC]) (2024, 1))"
  by (rule weaklyOrdered_float64) (simp add: totals_AC64)

subsection \<open>Claims\<close>

text \<open>
  C1. A valid card spend adds its contribution in pounds to the user's total: the
  amount when the source currency is GBP, the amount times the rate when it is GGM.
  This holds of the method \<^verbatim>\<open>update\<close> on any entry, and of the total that the
  aggregation loop keeps for the transaction's month and email.
\<close>

theorem C1_contribution:
  fixes tx :: "('f::{zero,plus,times}) Transaction"
  assumes "validate tx = None" and "TransactionType tx = txCardSpend"
  shows "TotalGBP (update us tx) =
           TotalGBP us
           + (if FromCurrency tx = currencyGBP then Amount tx else Amount tx * Rate tx)
       \<and> total (accumulate ms tx) (monthKey (Date tx)) (Email tx) =
           total ms (monthKey (Date tx)) (Email tx)
           + (if FromCurrency tx = currencyGBP then Amount tx else Amount tx * Rate tx)"
  using validate_currency [OF assms(1)]
  by (auto simp: total_def entry_accumulate [OF assms(2)] update_TotalGBP
      split: option.splits)

theorem C1_contribution_witness:
  "validate txGold = None \<and> TransactionType txGold = txCardSpend
   \<and> TotalGBP (update userA txGold) = 100 + 50 * 50
   \<and> total (accumulate [] txGold) 202401 ''c@test.com'' = 0 + 50 * 50
   \<and> validate txA = None \<and> TransactionType txA = txCardSpend
   \<and> TotalGBP (update userA txA) = 100 + 100"
proof -
  have v: "validate txGold = None" "validate txA = None"
    by (simp_all add: validate_def sample_defs)
  have t: "TransactionType txGold = txCardSpend" "TransactionType txA = txCardSpend"
    by (simp_all add: sample_defs)
  have k: "monthKey (Date txGold) = 202401" "Email txGold = ''c@test.com''"
    by (simp_all add: monthKey_def sample_defs)
  have e: "total ([] :: real spendings) 202401 ''c@test.com'' = 0"
    by (simp add: total_def entry_def)
  show ?thesis
    using C1_contribution [OF v(1) t(1), of userA "[]"]
      C1_contribution [OF v(2) t(2), of userA "[]"] v t k e
    by (simp add: sample_defs)
qed

text \<open>
  C2. Under the stop-on-error policy, when the stream holds an error the run
  returns the first one and hands nothing to the output: no header, no row.
\<close>

theorem C2_stop_on_error:
  fixes L :: "('f::{zero,plus,times,ord}) Lib"
  assumes "StopOnError cfg"
    and "newTxStream L src = map Tx txs @ Err e # rest"
  shows "TopSpenders L src cfg = \<lparr>returned = Some e, results = [], diagnostics = []\<rparr>"
  using assms by (simp add: TopSpenders_def consume_Tx_prefix)

theorem C2_stop_on_error_witness:
  "StopOnError \<lparr>StopOnError = True\<rparr>
   \<and> newTxStream testLib [Fields inHeader, Fields rowA, Fields rowB, Fields rowC] =
       map Tx [txA] @ Err (NumError ''invalid_amount'') # [Tx txC]
   \<and> TopSpenders testLib [Fields inHeader, Fields rowA, Fields rowB, Fields rowC]
         \<lparr>StopOnError = True\<rparr> =
       \<lparr>returned = Some (NumError ''invalid_amount''), results = [], diagnostics = []\<rparr>"
proof -
  have c: "StopOnError \<lparr>StopOnError = True\<rparr>"
    by simp
  have s: "newTxStream testLib [Fields inHeader, Fields rowA, Fields rowB, Fields rowC] =
       map Tx [txA] @ Err (NumError ''invalid_amount'') # [Tx txC]"
    by (simp add: stream_ABC)
  show ?thesis
    using C2_stop_on_error [OF c s] c s by simp
qed

text \<open>
  C3. A transaction of type BUY GOLD or SELL GOLD leaves the whole map as it was:
  no total, no count and no set of keys changes, and the loop goes on with the same
  map. More generally nothing but a CARD SPEND changes the map.
\<close>

theorem C3_gold_ignored:
  fixes tx :: "('f::{zero,plus,times}) Transaction"
  shows "(TransactionType tx = txBuyGold \<or> TransactionType tx = txSellGold \<longrightarrow>
            accumulate ms tx = ms
            \<and> consume cfg (Tx tx # rest) ms lg = consume cfg rest ms lg)
       \<and> (TransactionType tx \<noteq> txCardSpend \<longrightarrow> accumulate ms tx = ms)"
  by (auto simp: accumulate_def txBuyGold_def txSellGold_def txCardSpend_def)

theorem C3_gold_ignored_witness:
  "(TransactionType txBuy = txBuyGold \<or> TransactionType txBuy = txSellGold)
   \<and> TransactionType txBuy \<noteq> txCardSpend
   \<and> accumulate [(202401, [(''a@test.com'', userA)])] txBuy =
       [(202401, [(''a@test.com'', userA)])]
   \<and> consume \<lparr>StopOnError = False\<rparr> [Tx txBuy] [(202401, [(''a@test.com'', userA)])] [] =
       Inr ([(202401, [(''a@test.com'', userA)])], [])"
proof -
  have t: "TransactionType txBuy = txBuyGold \<or> TransactionType txBuy = txSellGold"
    "TransactionType txBuy \<noteq> txCardSpend"
    by (simp_all add: sample_defs)
  show ?thesis
    using C3_gold_ignored [of txBuy "[(202401, [(''a@test.com'', userA)])]"
        "\<lparr>StopOnError = False\<rparr>" "[]" "[]"] t
    by simp
qed

text \<open>
  C4, as the code has it. When the run produces a report, the rows of every month
  carry the ranks 1, 2, ..., k in this order, where k is the smaller of 5 and the
  number of distinct spenders of the month; this holds for every arithmetic. When
  moreover \<^verbatim>\<open>>\<close> orders the totals of the month (on \<^verbatim>\<open>float64\<close>: none of them is NaN),
  no row has a smaller amount than a row after it. Equal amounts are possible, so
  the order is descending but not strictly.
\<close>

theorem C4_ranking:
  fixes L :: "('f::{zero,plus,times,ord}) Lib"
  assumes "returned (TopSpenders L src cfg) = None"
  shows "map rank (filter (\<lambda>r. date r = d) (rankedOf (results (TopSpenders L src cfg)))) =
           map int [1..<Suc (min 5 (card (spenders (newTxStream L src) d)))]
       \<and> (weaklyOrdered (monthTotals (newTxStream L src) d) \<longrightarrow>
            sorted_wrt (\<lambda>a b. \<not> amount a < amount b)
              (filter (\<lambda>r. date r = d) (rankedOf (results (TopSpenders L src cfg)))))"
proof -
  let ?stream = "newTxStream L src"
  let ?ms = "foldl accumulate [] (transactionsOf ?stream)"
  let ?rows = "filter (\<lambda>r. date r = d) (rankedOf (writeMonthlySpendings ?ms))"
  have res: "results (TopSpenders L src cfg) = writeMonthlySpendings ?ms"
    using assms by (simp add: TopSpenders_results)
  have once: "distinct (map fst ?ms)"
    using keysOnce_foldl [OF keysOnce_Nil, of "transactionsOf ?stream"]
    by (simp add: keysOnce_def)
  have "map rank ?rows = map int [1..<Suc (min 5 (card (spenders ?stream d)))]
      \<and> (weaklyOrdered (monthTotals ?stream d) \<longrightarrow>
           sorted_wrt (\<lambda>a b. \<not> amount a < amount b) ?rows)"
  proof (cases "\<exists>key. d = writtenDate key")
    case True
    then obtain key where d: "d = writtenDate key" ..
    have rows: "?rows = rankedOf (monthRows key (monthAt ?ms key))"
      unfolding d by (rule month_of_report [OF once])
    have n: "length (monthAt ?ms key) = card (spenders ?stream d)"
      unfolding d spenders_key by (rule length_month)
    have "sorted_wrt (\<lambda>a b. \<not> amount a < amount b)
            (rankedOf (monthRows key (monthAt ?ms key)))"
      if "weaklyOrdered (monthTotals ?stream d)"
      using that monthAt_totals [of ?stream key] unfolding d by (rule monthRows_weak)
    then show ?thesis
      unfolding rows using n by (simp add: monthRows_rank_any)
  next
    case False
    then have "?rows = []"
      by (auto simp: filter_empty_conv dest: date_of_report)
    moreover have "spenders ?stream d = {}"
      using False by (simp add: spenders_no_key)
    ultimately show ?thesis
      by simp
  qed
  then show ?thesis
    unfolding res .
qed

theorem C4_ranking_witness:
  "returned (TopSpenders testLib [Fields inHeader, Fields rowA, Fields rowB, Fields rowC]
       \<lparr>StopOnError = False\<rparr>) = None
   \<and> card (spenders
         (newTxStream testLib [Fields inHeader, Fields rowA, Fields rowB, Fields rowC])
         (2024, 1)) = 2
   \<and> weaklyOrdered (monthTotals
         (newTxStream testLib [Fields inHeader, Fields rowA, Fields rowB, Fields rowC])
         (2024, 1))
   \<and> map rank (filter (\<lambda>r. date r = (2024, 1))
        (rankedOf (results (TopSpenders testLib
           [Fields inHeader, Fields rowA, Fields rowB, Fields rowC]
           \<lparr>StopOnError = False\<rparr>)))) = [1, 2]
   \<and> map amount (filter (\<lambda>r. date r = (2024, 1))
        (rankedOf (results (TopSpenders testLib
           [Fields inHeader, Fields rowA, Fields rowB, Fields rowC]
           \<lparr>StopOnError = False\<rparr>)))) = [200, 100]
   \<and> sorted_wrt (\<lambda>a b. \<not> amount a < amount b)
        (filter (\<lambda>r. date r = (2024, 1))
          (rankedOf (results (TopSpenders testLib
             [Fields inHeader, Fields rowA, Fields rowB, Fields rowC]
             \<lparr>StopOnError = False\<rparr>))))
   \<and> returned (TopSpenders nanLib [Fields inHeader, Fields rowA, Fields rowNaN, Fields rowC]
       \<lparr>StopOnError = False\<rparr>) = None
   \<and> map rank (filter (\<lambda>r. date r = (2024, 1))
        (rankedOf (results (TopSpenders nanLib
           [Fields inHeader, Fields rowA, Fields rowNaN, Fields rowC]
           \<lparr>StopOnError = False\<rparr>)))) = [1, 2, 3]
   \<and> map amount (filter (\<lambda>r. date r = (2024, 1))
        (rankedOf (results (TopSpenders nanLib
           [Fields inHeader, Fields rowA, Fields rowNaN, Fields rowC]
           \<lparr>StopOnError = False\<rparr>)))) = [Finite 100, NaN, Finite 200]
   \<and> returned (TopSpenders nanLib [Fields inHeader, Fields rowA, Fields rowC]
       \<lparr>StopOnError = False\<rparr>) = None
   \<and> weaklyOrdered (monthTotals
         (newTxStream nanLib [Fields inHeader, Fields rowA, Fields rowC]) (2024, 1))
   \<and> map amount (filter (\<lambda>r. date r = (2024, 1))
        (rankedOf (results (TopSpenders nanLib
           [Fields inHeader, Fields rowA, Fields rowC]
           \<lparr>StopOnError = False\<rparr>)))) = [Finite 200, Finite 100]
   \<and> sorted_wrt (\<lambda>a b. \<not> amount a < amount b)
        (filter (\<lambda>r. date r = (2024, 1))
          (rankedOf (results (TopSpenders nanLib
             [Fields inHeader, Fields rowA, Fields rowC]
             \<lparr>StopOnError = False\<rparr>))))"
proof -
  have r: "returned (TopSpenders testLib
       [Fields inHeader, Fields rowA, Fields rowB, Fields rowC]
       \<lparr>StopOnError = False\<rparr>) = None"
    by (simp add: TopSpenders_default)
  have c: "card (spenders
         (newTxStream testLib [Fields inHeader, Fields rowA, Fields rowB, Fields rowC])
         (2024, 1)) = 2"
    by (simp add: stream_ABC spenders_ABC)
  have w: "weaklyOrdered (monthTotals
         (newTxStream testLib [Fields inHeader, Fields rowA, Fields rowB, Fields rowC])
         (2024, 1))"
    by (rule weaklyOrdered_linorder)
  have n: "returned (TopSpenders nanLib
       [Fields inHeader, Fields rowA, Fields rowNaN, Fields rowC]
       \<lparr>StopOnError = False\<rparr>) = None"
    by (simp add: TopSpenders_default)
  have m: "returned (TopSpenders nanLib
       [Fields inHeader, Fields rowA, Fields rowC]
       \<lparr>StopOnError = False\<rparr>) = None"
    by (simp add: TopSpenders_default)
  show ?thesis
    using C4_ranking [OF r, of "(2024, 1)"] C4_ranking [OF n, of "(2024, 1)"]
      C4_ranking [OF m, of "(2024, 1)"] r c w n m ordered_AC64
    by (simp add: report_ABC report_nan report_AC64)
qed

text \<open>
  The claim C4 as stated fails: users A and B each spend 100 in January 2024, and
  the two rows of the month carry the same amount.
\<close>

theorem C4_counterexample:
  "map amount (filter (\<lambda>r. date r = (2024, 1))
      (rankedOf (results (TopSpenders testLib
         [Fields inHeader, Fields rowA, Fields rowB100] \<lparr>StopOnError = False\<rparr>)))) =
     [100, 100]
   \<and> \<not> sorted_wrt (\<lambda>a b. amount b < amount a)
        (filter (\<lambda>r. date r = (2024, 1))
          (rankedOf (results (TopSpenders testLib
             [Fields inHeader, Fields rowA, Fields rowB100] \<lparr>StopOnError = False\<rparr>))))"
  by (simp add: report_AB100)

text \<open>
  C5. A row whose number of columns differs from that of the header does not reach
  \<^verbatim>\<open>decodeRecord\<close>: the csv reader returns \<^verbatim>\<open>ErrFieldCount\<close> for it, and the producer
  sends that error and closes the stream. With the header and row A before it and
  row C after it, the short row ends the stream: row C is never read, and under the
  default policy the report ranks user A alone, while without the short row it
  ranks C and A.
\<close>

theorem C5_short_row_ends_stream:
  "newTxStream testLib [Fields inHeader, Fields rowA, Fields rowShort, Fields rowC] =
     [Tx txA, Err ErrFieldCount]
   \<and> TopSpenders testLib [Fields inHeader, Fields rowA, Fields rowShort, Fields rowC]
        \<lparr>StopOnError = False\<rparr> =
      \<lparr>returned = None,
       results = [reportHeader,
         Row \<lparr>date = (2024, 1), rank = 1, amount = 100, currency = ''GBP'',
              transactions = 1, email = ''a@test.com'', firstName = ''A'',
              lastName = ''A''\<rparr>],
       diagnostics = [ErrFieldCount]\<rparr>
   \<and> newTxStream testLib [Fields inHeader, Fields rowA, Fields rowC] = [Tx txA, Tx txC]"
proof -
  have s: "newTxStream testLib
             [Fields inHeader, Fields rowA, Fields rowShort, Fields rowC] =
           [Tx txA, Err ErrFieldCount]"
    by (simp add: newTxStream_Fields readLoop_Fields length_rows sent_rowA)
  have t: "newTxStream testLib [Fields inHeader, Fields rowA, Fields rowC] =
           [Tx txA, Tx txC]"
    by (simp add: newTxStream_Fields readLoop_Fields readLoop_Nil length_rows
        sent_rowA sent_rowC)
  have a: "accumulate [] txA = [(202401, [(''a@test.com'', userA)])]"
    by (simp add: accumulate_def update_def monthKey_def Let_def sample_defs)
  have w: "writeMonthlySpendings [(202401, [(''a@test.com'', userA)])] =
      [reportHeader,
       Row \<lparr>date = (2024, 1), rank = 1, amount = 100, currency = ''GBP'',
            transactions = 1, email = ''a@test.com'', firstName = ''A'',
            lastName = ''A''\<rparr>]"
    by (simp add: writeMonthlySpendings_def monthRows_def sort_Slice_def reportHeader_def
        Let_def writtenDate_def signed_divide_int_def signed_modulo_int_def userA_def)
  show ?thesis
    by (simp add: TopSpenders_default s t a w)
qed

text \<open>
  C6, as the code has it. Under the default policy an error of the input stream is
  sent as the last item of the stream and is logged like any other error: the run
  writes the report of the rows read before it, exactly as if the input had ended
  there, and returns no error. (With \<open>StopOnError\<close> it is returned: see C2.)
\<close>

theorem C6_read_error_logged:
  fixes L :: "('f::{zero,plus,times,ord}) Lib"
  assumes "\<not> StopOnError cfg" and "\<forall>r\<in>set rows. length r = length h" and "e \<noteq> EOF"
  shows "newTxStream L (Fields h # map Fields rows @ Fault e # rest) =
           map (sent L) rows @ [Err e]
       \<and> TopSpenders L (Fields h # map Fields rows @ Fault e # rest) cfg =
           \<lparr>returned = None,
            results = results (TopSpenders L (Fields h # map Fields rows) cfg),
            diagnostics = errorsOf (map (sent L) rows) @ [e]\<rparr>"
proof -
  have s1: "newTxStream L (Fields h # map Fields rows @ Fault e # rest) =
              map (sent L) rows @ [Err e]"
    using newTxStream_uniform [OF assms(2), of L "Fault e # rest"] assms(3)
    by (simp add: readLoop_Fault)
  have s2: "newTxStream L (Fields h # map Fields rows) = map (sent L) rows"
    using newTxStream_uniform [OF assms(2), of L "[]"]
    by (simp add: readLoop_Nil)
  show ?thesis
    using assms(1)
    by (simp add: TopSpenders_default s1 s2 errorsOf_append transactionsOf_append)
qed

theorem C6_read_error_logged_witness:
  "\<not> StopOnError \<lparr>StopOnError = False\<rparr>
   \<and> length rowA = length inHeader
   \<and> IOError ''read failed'' \<noteq> EOF
   \<and> newTxStream testLib
        (Fields inHeader # map Fields [rowA] @ Fault (IOError ''read failed'') # [Fields rowC]) =
      [Tx txA, Err (IOError ''read failed'')]
   \<and> TopSpenders testLib
        (Fields inHeader # map Fields [rowA] @ Fault (IOError ''read failed'') # [Fields rowC])
        \<lparr>StopOnError = False\<rparr> =
      \<lparr>returned = None,
       results = results (TopSpenders testLib (Fields inHeader # map Fields [rowA])
                            \<lparr>StopOnError = False\<rparr>),
       diagnostics = [IOError ''read failed'']\<rparr>"
proof -
  have c: "\<not> StopOnError \<lparr>StopOnError = False\<rparr>"
    by simp
  have u: "\<forall>r\<in>set [rowA]. length r = length inHeader"
    by (simp add: length_rows)
  have e: "IOError ''read failed'' \<noteq> EOF"
    by simp
  show ?thesis
    using C6_read_error_logged [OF c u e, of testLib "[Fields rowC]"] c u e
    by (simp add: sent_rowA)
qed

text \<open>
  The claim C6 as stated fails: the input stream breaks after row A, and the run
  under the default policy returns no error.
\<close>

theorem C6_counterexample:
  "returned (TopSpenders testLib
       [Fields inHeader, Fields rowA, Fault (IOError ''read failed'')]
       \<lparr>StopOnError = False\<rparr>) = None
   \<and> diagnostics (TopSpenders testLib
       [Fields inHeader, Fields rowA, Fault (IOError ''read failed'')]
       \<lparr>StopOnError = False\<rparr>) = [IOError ''read failed'']"
  by (simp add: TopSpenders_default newTxStream_Fields readLoop_Fields readLoop_Fault
      length_rows sent_rowA)

text \<open>
  C7, as the code has it, on the model of \<^verbatim>\<open>float64\<close>. Every call of \<^verbatim>\<open>update\<close>
  increments the count by exactly one. When the amount is not negative (and, for a
  GGM amount, the rate is not negative either), the new total is never less than the
  old one, and it is greater or equal whenever it is a number; it is NaN, for
  instance, after an infinite amount at rate zero. The signs are checked nowhere.
  The total is assumed to be a value that a \<^verbatim>\<open>float64\<close> can hold, and the new total
  is one again.
\<close>

theorem C7_accumulation:
  fixes us :: "float64 UserMonthlySpending"
  assumes "is_float64 (TotalGBP us)"
    and "0 \<le> Amount tx"
    and "FromCurrency tx = currencyGGM \<longrightarrow> 0 \<le> Rate tx"
  shows "\<not> TotalGBP (update us tx) < TotalGBP us
       \<and> (TotalGBP (update us tx) \<noteq> NaN \<longrightarrow> TotalGBP us \<le> TotalGBP (update us tx))
       \<and> is_float64 (TotalGBP (update us tx))
       \<and> TransactionCount (update us tx) = TransactionCount us + 1"
proof -
  have a: "\<not> Amount tx < 0"
    using assms(2) by (cases "Amount tx") (auto simp: zero_float64_def less_eq_float64_def)
  have m: "FromCurrency tx = currencyGGM \<Longrightarrow> \<not> Amount tx * Rate tx < 0"
    using assms(2,3) by (simp add: mult_not_negative)
  have irr: "\<not> TotalGBP us < TotalGBP us"
    by (cases "TotalGBP us") simp_all
  have down: "\<not> TotalGBP (update us tx) < TotalGBP us"
    using a m irr add_not_below [OF assms(1)] by (simp add: update_TotalGBP)
  have nan: "TotalGBP us = NaN \<Longrightarrow> TotalGBP (update us tx) = NaN"
    by (simp add: update_TotalGBP)
  have "TotalGBP us \<le> TotalGBP (update us tx)" if "TotalGBP (update us tx) \<noteq> NaN"
    using that nan down by (intro not_less_le) auto
  then show ?thesis
    using down is_float64_update [OF assms(1)] by (simp add: update_TransactionCount)
qed

theorem C7_accumulation_witness:
  "is_float64 (TotalGBP userA64) \<and> 0 \<le> Amount txGold64
   \<and> FromCurrency txGold64 = currencyGGM \<and> 0 \<le> Rate txGold64
   \<and> TotalGBP (update userA64 txGold64) = Finite 2600
   \<and> \<not> TotalGBP (update userA64 txGold64) < TotalGBP userA64
   \<and> TotalGBP userA64 \<le> TotalGBP (update userA64 txGold64)
   \<and> TransactionCount (update userA64 txGold64) = 2
   \<and> 0 \<le> Amount txInf64 \<and> FromCurrency txInf64 = currencyGGM \<and> 0 \<le> Rate txInf64
   \<and> TotalGBP (update userA64 txInf64) = NaN
   \<and> \<not> TotalGBP (update userA64 txInf64) < TotalGBP userA64"
proof -
  have v: "is_float64 (TotalGBP userA64)"
    by (simp add: userA64_def is_float64_int)
  have a: "0 \<le> Amount txGold64" "0 \<le> Amount txInf64"
    by (simp_all add: txGold64_def txInf64_def zero_float64_def less_eq_float64_def)
  have r: "0 \<le> Rate txGold64" "0 \<le> Rate txInf64"
    by (simp_all add: txGold64_def txInf64_def zero_float64_def less_eq_float64_def)
  have g: "FromCurrency txGold64 = currencyGGM" "FromCurrency txInf64 = currencyGGM"
    by (simp_all add: txGold64_def txInf64_def currencyGGM_def)
  have t: "TotalGBP (update userA64 txGold64) = Finite 2600"
    by (simp add: update_TotalGBP userA64_def txGold64_def currencyGGM_def roundTo64_int)
  have n: "TotalGBP (update userA64 txInf64) = NaN"
    by (simp add: update_TotalGBP userA64_def txInf64_def currencyGGM_def)
  show ?thesis
    using C7_accumulation [OF v a(1)] C7_accumulation [OF v a(2)]
      v a r g t n
    by (simp add: update_TransactionCount userA64_def)
qed

text \<open>
  The claim C7 as stated fails: row A with the amount \<^verbatim>\<open>-5\<close> decodes to a valid card
  spend, and applying it lowers the total of user A from 100 to 95.
\<close>

theorem C7_counterexample:
  "sent testLib rowNeg = Tx txNeg
   \<and> validate txNeg = None \<and> TransactionType txNeg = txCardSpend
   \<and> TotalGBP (update userA txNeg) = 95
   \<and> TotalGBP (update userA txNeg) < TotalGBP userA"
  by (simp add: sent_def decodeRecord_def validate_def update_def Let_def sample_defs)

text \<open>
  C8. The months of the report appear in ascending chronological order; every month
  of the report is the year and month of a qualifying transaction of the input, and
  when the run produces a report every such month is in it; and the month key orders
  dates as their year and month do. The parts about the input use that \<^verbatim>\<open>time.Parse\<close>
  with the four-digit year of the layout returns no negative year.
\<close>

theorem C8_months:
  fixes L :: "('f::{zero,plus,times,ord}) Lib"
  assumes "\<forall>s t. time_Parse L timeLayout s = Inr t \<longrightarrow> 0 \<le> Year t"
  shows "sorted_wrt (\<lambda>a b. a = b \<or> precedes a b)
           (map date (rankedOf (results (TopSpenders L src cfg))))
       \<and> (\<forall>r\<in>set (rankedOf (results (TopSpenders L src cfg))).
            \<exists>tx\<in>set (cardSpends (newTxStream L src)).
              date r = (Year (Date tx), Month_int (Month (Date tx))))
       \<and> (returned (TopSpenders L src cfg) = None \<longrightarrow>
            set (map date (rankedOf (results (TopSpenders L src cfg)))) =
              (\<lambda>tx. (Year (Date tx), Month_int (Month (Date tx))))
                ` set (cardSpends (newTxStream L src)))
       \<and> (monthKey d1 < monthKey d2 \<longleftrightarrow>
            precedes (Year d1, Month_int (Month d1)) (Year d2, Month_int (Month d2)))"
proof -
  let ?stream = "newTxStream L src"
  let ?ms = "foldl accumulate [] (transactionsOf ?stream)"
  let ?ym = "\<lambda>tx. (Year (Date tx), Month_int (Month (Date tx)))"
  have ym: "writtenDate (monthKey (Date tx)) = ?ym tx"
    if member: "tx \<in> set (transactionsOf ?stream)" for tx
  proof -
    obtain s where "time_Parse L timeLayout s = Inr (Date tx)"
      using newTxStream_Tx [OF member] ..
    then have "0 \<le> Year (Date tx)"
      using assms by simp
    then show ?thesis
      by (rule writtenDate_monthKey)
  qed
  have asc: "sorted_wrt (\<lambda>a b. a = b \<or> precedes a b)
               (map date (rankedOf (writeMonthlySpendings ?ms)))"
    unfolding rankedOf_writeMonthlySpendings
    by (rule sorted_dates) (auto dest: monthRows_date)
  have src: "\<exists>tx\<in>set (cardSpends ?stream). date r = ?ym tx"
    if r: "r \<in> set (rankedOf (writeMonthlySpendings ?ms))" for r
  proof -
    obtain key where k: "date r = writtenDate key" "monthAt ?ms key \<noteq> []"
      using date_of_report [OF r] by auto
    have "fst ` set (monthAt ?ms key) \<noteq> {}"
      using k(2) by simp
    then obtain tx where tx: "tx \<in> set (transactionsOf ?stream)"
        "TransactionType tx = txCardSpend" "monthKey (Date tx) = key"
      using emails_foldl [of "[]" "transactionsOf ?stream" key]
      by (auto simp: monthAt_def)
    have "date r = ?ym tx"
      using k(1) tx(3) ym [OF tx(1)] by simp
    then show ?thesis
      using tx by (auto simp: cardSpends_def)
  qed
  have all: "set (map date (rankedOf (writeMonthlySpendings ?ms))) =
               ?ym ` set (cardSpends ?stream)"
  proof (intro set_eqI iffI)
    fix d
    assume "d \<in> set (map date (rankedOf (writeMonthlySpendings ?ms)))"
    then show "d \<in> ?ym ` set (cardSpends ?stream)"
      using src by auto
  next
    fix d
    assume "d \<in> ?ym ` set (cardSpends ?stream)"
    then obtain tx where tx: "tx \<in> set (cardSpends ?stream)" "d = ?ym tx"
      by auto
    have "tx \<in> set (transactionsOf ?stream)"
      using tx(1) by (simp add: cardSpends_def)
    then have "d = writtenDate (monthKey (Date tx))"
      using tx(2) ym by simp
    then show "d \<in> set (map date (rankedOf (writeMonthlySpendings ?ms)))"
      using month_written [OF tx(1)] by simp
  qed
  show ?thesis
    using asc src all by (auto simp: TopSpenders_results monthKey_less)
qed

theorem C8_months_witness:
  "returned (TopSpenders calendarLib
       [Fields inHeader, Fields rowFeb, Fields rowA, Fields rowDec]
       \<lparr>StopOnError = False\<rparr>) = None
   \<and> cardSpends (newTxStream calendarLib
        [Fields inHeader, Fields rowFeb, Fields rowA, Fields rowDec]) = [txFeb, txA, txDec]
   \<and> map date (rankedOf (results (TopSpenders calendarLib
       [Fields inHeader, Fields rowFeb, Fields rowA, Fields rowDec]
       \<lparr>StopOnError = False\<rparr>))) =
     [(2023, 12), (2024, 1), (2024, 2)]
   \<and> sorted_wrt (\<lambda>a b. a = b \<or> precedes a b)
       (map date (rankedOf (results (TopSpenders calendarLib
          [Fields inHeader, Fields rowFeb, Fields rowA, Fields rowDec]
          \<lparr>StopOnError = False\<rparr>))))
   \<and> set (map date (rankedOf (results (TopSpenders calendarLib
          [Fields inHeader, Fields rowFeb, Fields rowA, Fields rowDec]
          \<lparr>StopOnError = False\<rparr>)))) =
       (\<lambda>tx. (Year (Date tx), Month_int (Month (Date tx)))) ` set [txFeb, txA, txDec]
   \<and> monthKey (Date txDec) = 202312 \<and> monthKey (Date txA) = 202401
   \<and> monthKey (Date txDec) < monthKey (Date txA)
   \<and> precedes (2023, 12) (2024, 1)"
proof -
  have h: "\<forall>s t. time_Parse calendarLib timeLayout s = Inr t \<longrightarrow> 0 \<le> Year t"
    by (auto simp: calendarLib_def testLib_def split: if_splits)
  have r: "returned (TopSpenders calendarLib
       [Fields inHeader, Fields rowFeb, Fields rowA, Fields rowDec]
       \<lparr>StopOnError = False\<rparr>) = None"
    by (simp add: TopSpenders_default)
  have c: "cardSpends (newTxStream calendarLib
        [Fields inHeader, Fields rowFeb, Fields rowA, Fields rowDec]) = [txFeb, txA, txDec]"
    by (simp add: stream_calendar cardSpends_def) (simp add: sample_defs calendar_defs)
  have k: "monthKey (Date txDec) = 202312" "monthKey (Date txA) = 202401"
    "(Year (Date txDec), Month_int (Month (Date txDec))) = (2023, 12)"
    "(Year (Date txA), Month_int (Month (Date txA))) = (2024, 1)"
    by (simp_all add: monthKey_def sample_defs calendar_defs)
  show ?thesis
    using C8_months [OF h, of "[Fields inHeader, Fields rowFeb, Fields rowA, Fields rowDec]"
        "\<lparr>StopOnError = False\<rparr>" "Date txDec" "Date txA"] r c k
    by (simp add: report_calendar)
qed

text \<open>
  C9, as the code has it. When the input has a header row, the records that the
  reader accepts are answered one by one, in their order, and the end of the input
  adds nothing to the stream. Whatever follows a run of accepted records, their
  results come first and in order.
\<close>

theorem C9_row_order:
  assumes "\<forall>r\<in>set rows. length r = length h"
  shows "newTxStream L (Fields h # map Fields rows) = map (sent L) rows
       \<and> newTxStream L (Fields h # map Fields rows @ items) =
           map (sent L) rows
           @ readLoop L \<lparr>pending = items, FieldsPerRecord = int (length h)\<rparr>"
  using newTxStream_uniform [OF assms, of L "[]"] newTxStream_uniform [OF assms, of L items]
  by (simp add: readLoop_Nil)

theorem C9_row_order_witness:
  "length rowA = length inHeader \<and> length rowB = length inHeader
   \<and> length rowC = length inHeader
   \<and> newTxStream testLib (Fields inHeader # map Fields [rowA, rowB, rowC]) =
       [Tx txA, Err (NumError ''invalid_amount''), Tx txC]"
proof -
  have u: "\<forall>r\<in>set [rowA, rowB, rowC]. length r = length inHeader"
    by (simp add: length_rows)
  show ?thesis
    using C9_row_order [OF u, of testLib "[]"] u
    by (simp add: sent_rowA sent_rowB sent_rowC)
qed

text \<open>
  The claim C9 as stated fails on the empty input: the exhaustion of the input is
  met while reading the header, and the producer sends it as an error result.
\<close>

theorem C9_counterexample:
  "newTxStream testLib [] = [Err EOF]"
  by (simp add: newTxStream_def csv_NewReader_def csv_Read_def)

text \<open>
  C10. On the empty input the read of the header returns \<^verbatim>\<open>io.EOF\<close>, which the
  producer sends as the only item of the stream. With \<open>StopOnError\<close> the run returns
  it and writes nothing; without, the run logs it, writes the header row of the
  report and nothing else, and returns no error.
\<close>

theorem C10_empty_input:
  fixes L :: "('f::{zero,plus,times,ord}) Lib"
  shows "newTxStream L [] = [Err EOF]
    \<and> TopSpenders L [] \<lparr>StopOnError = True\<rparr> =
        \<lparr>returned = Some EOF, results = [], diagnostics = []\<rparr>
    \<and> TopSpenders L [] \<lparr>StopOnError = False\<rparr> =
        \<lparr>returned = None, results = [reportHeader], diagnostics = [EOF]\<rparr>"
  by (simp add: TopSpenders_def newTxStream_Nil writeMonthlySpendings_Nil)

end
